theory Spec2Isabelle
  imports Complex_Main "HOL-Library.Word" "HOL-Library.Multiset" "HOL-Library.Sublist"
begin

section \<open>Strings\<close>

text \<open>
  A JavaScript string is a sequence of code units; it is modelled by \<open>string\<close>, each
  \<open>char\<close> standing for one code unit (the code units below 256). The functions below
  are the string operations that \<open>ollama_client.ts\<close> uses.
\<close>

text \<open>\<open>haystack.includes(needle)\<close>: the needle occurs as a contiguous run.\<close>

fun js_includes :: "string \<Rightarrow> string \<Rightarrow> bool" where
  "js_includes [] needle = (needle = [])"
| "js_includes (c # cs) needle =
     (take (length needle) (c # cs) = needle \<or> js_includes cs needle)"

text \<open>\<open>s.substring(0, n)\<close>.\<close>

definition substring0 :: "string \<Rightarrow> nat \<Rightarrow> string" where
  "substring0 s n = take n s"

text \<open>
  \<open>sanitizeText\<close>: \<open>text.replace(/[\x00-\x08\x0B\x0C\x0E-\x1F\x7F]/g, '')\<close>.
\<close>

definition is_control :: "char \<Rightarrow> bool" where
  "is_control c =
     (let n = (of_char c :: nat)
      in n \<le> 8 \<or> n = 11 \<or> n = 12 \<or> (14 \<le> n \<and> n \<le> 31) \<or> n = 127)"

definition sanitizeText :: "string \<Rightarrow> string" where
  "sanitizeText txt = filter (\<lambda>c. \<not> is_control c) txt"

text \<open>
  \<open>.replace(/<[^>]+>/g, ' ')\<close>: a \<open><\<close>, at least one character other than \<open>>\<close>,
  and the next \<open>>\<close> are replaced by one blank; a \<open><\<close> that starts no such match
  is kept.
\<close>

function stripTags :: "string \<Rightarrow> string" where
  "stripTags [] = []"
| "stripTags (c # cs) =
     (if c = CHR ''<'' \<and> takeWhile (\<lambda>d. d \<noteq> CHR ''>'') cs \<noteq> []
           \<and> dropWhile (\<lambda>d. d \<noteq> CHR ''>'') cs \<noteq> []
      then CHR '' '' # stripTags (tl (dropWhile (\<lambda>d. d \<noteq> CHR ''>'') cs))
      else c # stripTags cs)"
  by pat_completeness auto
termination
proof (relation "measure length")
  fix c :: char and cs :: string
  have "length (dropWhile (\<lambda>d. d \<noteq> CHR ''>'') cs) \<le> length cs"
    by (rule length_dropWhile_le)
  then have "length (tl (dropWhile (\<lambda>d. d \<noteq> CHR ''>'') cs)) \<le> length cs"
    by simp
  then show "(tl (dropWhile (\<lambda>d. d \<noteq> CHR ''>'') cs), c # cs) \<in> measure length"
    by simp
qed simp_all

text \<open>The white space of \<open>\s\<close> and of \<open>trim()\<close> among the code units below 256.\<close>

definition is_space :: "char \<Rightarrow> bool" where
  "is_space c =
     (let n = (of_char c :: nat)
      in (9 \<le> n \<and> n \<le> 13) \<or> n = 32 \<or> n = 160)"

text \<open>\<open>.replace(/\s+/g, ' ')\<close>: every maximal run of white space becomes one blank.\<close>

function collapseWhitespace :: "string \<Rightarrow> string" where
  "collapseWhitespace [] = []"
| "collapseWhitespace (c # cs) =
     (if is_space c then CHR '' '' # collapseWhitespace (dropWhile is_space cs)
      else c # collapseWhitespace cs)"
  by pat_completeness auto
termination
proof (relation "measure length")
  fix c :: char and cs :: string
  have "length (dropWhile is_space cs) \<le> length cs"
    by (rule length_dropWhile_le)
  then show "(dropWhile is_space cs, c # cs) \<in> measure length"
    by simp
qed simp_all

definition trim :: "string \<Rightarrow> string" where
  "trim s = rev (dropWhile is_space (rev (dropWhile is_space s)))"

section \<open>The embedding provider (\<open>ollama_client.ts\<close>)\<close>

text \<open>
  The provider is outside the program. What the client sends and how long it waits is
  recorded in a trace; the provider answers a request as a function of the trace up to
  and including that request, so any deterministic provider is covered.
\<close>

datatype event = Request string | Sleep nat

text \<open>
  The body of a response as the client looks at it: \<open>response.json\<close> throws when the
  body is no JSON, reading \<open>data.embedding\<close> throws when the JSON value is \<open>null\<close>,
  and otherwise the field is missing, falsy, some other value, or an array.
\<close>

datatype 'e embedding_field = Missing | Falsy | Truthy_other | Array "'e list"

datatype 'e body = Not_json | Json_null | Json "'e embedding_field"

record 'e response =
  status :: nat
  body_text :: string
  json :: "'e body"

text \<open>\<open>requestUrl\<close> with \<open>throw: false\<close> rejects on a transport failure only.\<close>

datatype 'e reply = Throws string | Responds "'e response"

type_synonym 'e provider = "event list \<Rightarrow> 'e reply"

datatype error =
    Connect_failed nat string
  | Api_error nat string
  | Invalid_response
  | Json_exception
  | Retries_exhausted
  | Read_failed
  | Write_failed
  | Range_error
  | Invalid_format
  | Cancelled

definition requestUrl :: "'e provider \<Rightarrow> string \<Rightarrow> event list \<Rightarrow> 'e reply \<times> event list" where
  "requestUrl prov prompt tr = (prov (tr @ [Request prompt]), tr @ [Request prompt])"

definition setTimeout :: "nat \<Rightarrow> event list \<Rightarrow> event list" where
  "setTimeout delay tr = tr @ [Sleep delay]"

text \<open>The test \<open>data.embedding && Array.isArray(data.embedding)\<close>.\<close>

fun truthy :: "'e embedding_field \<Rightarrow> bool" where
  "truthy Missing = False"
| "truthy Falsy = False"
| "truthy Truthy_other = True"
| "truthy (Array xs) = True"

fun isArray :: "'e embedding_field \<Rightarrow> bool" where
  "isArray (Array xs) = True"
| "isArray _ = False"

fun elements :: "'e embedding_field \<Rightarrow> 'e list" where
  "elements (Array xs) = xs"
| "elements _ = []"

definition isContextLength :: "string \<Rightarrow> bool" where
  "isContextLength errorText =
     (js_includes errorText ''context length'' \<or> js_includes errorText ''context_length'')"

definition isTransient :: "string \<Rightarrow> bool" where
  "isTransient errorText =
     (js_includes errorText ''EOF'' \<or> js_includes errorText ''connection'')"

text \<open>
  One fallback request, as both fallback blocks of \<open>generateEmbedding\<close> make it: the
  whole block is inside \<open>try\<close>, so a transport failure, a body that is no JSON and a
  \<open>null\<close> body all fall through, as a status other than 200 and a body without an
  array do.
\<close>

definition fallbackRequest :: "'e provider \<Rightarrow> string \<Rightarrow> event list \<Rightarrow> 'e list option \<times> event list" where
  "fallbackRequest prov prompt tr =
     (case requestUrl prov prompt tr of
        (Throws msg, tr') \<Rightarrow> (None, tr')
      | (Responds r, tr') \<Rightarrow>
          if status r = 200 then
            (case json r of
               Json f \<Rightarrow> if truthy f \<and> isArray f then (Some (elements f), tr') else (None, tr')
             | _ \<Rightarrow> (None, tr'))
          else (None, tr'))"

definition safeText :: "string \<Rightarrow> string" where
  "safeText sanitizedText =
     substring0 (trim (collapseWhitespace (stripTags sanitizedText))) 2000"

definition safeMode :: "'e provider \<Rightarrow> string \<Rightarrow> event list \<Rightarrow> 'e list option \<times> event list" where
  "safeMode prov sanitizedText tr = fallbackRequest prov (safeText sanitizedText) tr"

definition titleOnlyMode :: "'e provider \<Rightarrow> string \<Rightarrow> event list \<Rightarrow> 'e list option \<times> event list" where
  "titleOnlyMode prov title tr = fallbackRequest prov (''Note title: '' @ title) tr"

text \<open>\<open>if (title)\<close>: the title is given and not the empty string.\<close>

fun title_given :: "string option \<Rightarrow> bool" where
  "title_given None = False"
| "title_given (Some t) = (t \<noteq> [])"

text \<open>
  The fallback chain entered on the last transient failure or on a context-length
  error: Safe Mode, then Title-Only Mode when a title is given, then the error of the
  full-text response.
\<close>

definition fallbackChain :: "'e provider \<Rightarrow> string \<Rightarrow> string option \<Rightarrow> 'e response \<Rightarrow> event list
    \<Rightarrow> (error + 'e list) \<times> event list" where
  "fallbackChain prov sanitizedText title r tr =
     (case safeMode prov sanitizedText tr of
        (Some e, tr1) \<Rightarrow> (Inr e, tr1)
      | (None, tr1) \<Rightarrow>
          if title_given title then
            (case titleOnlyMode prov (the title) tr1 of
               (Some e, tr2) \<Rightarrow> (Inr e, tr2)
             | (None, tr2) \<Rightarrow> (Inl (Api_error (status r) (body_text r)), tr2))
          else (Inl (Api_error (status r) (body_text r)), tr1))"

text \<open>The validation of a 200 response to the full-text request.\<close>

definition readEmbedding :: "'e response \<Rightarrow> error + 'e list" where
  "readEmbedding r =
     (case json r of
        Not_json \<Rightarrow> Inl Json_exception
      | Json_null \<Rightarrow> Inl Json_exception
      | Json f \<Rightarrow> if \<not> truthy f \<or> \<not> isArray f then Inl Invalid_response else Inr (elements f))"

text \<open>The loop \<open>for (let attempt = 0; attempt <= retries; attempt++)\<close>.\<close>

function attempts :: "'e provider \<Rightarrow> string \<Rightarrow> string \<Rightarrow> string option \<Rightarrow> nat \<Rightarrow> nat \<Rightarrow> event list
    \<Rightarrow> (error + 'e list) \<times> event list" where
  "attempts prov sanitizedText truncatedText title retries attempt tr =
     (if attempt \<le> retries then
        (case requestUrl prov truncatedText tr of
           (Throws msg, tr1) \<Rightarrow>
             if attempt < retries then
               attempts prov sanitizedText truncatedText title retries (attempt + 1)
                 (setTimeout (2 ^ attempt * 1000) tr1)
             else (Inl (Connect_failed (retries + 1) msg), tr1)
         | (Responds r, tr1) \<Rightarrow>
             if status r \<noteq> 200 then
               if isTransient (body_text r) \<or> isContextLength (body_text r) then
                 if attempt < retries \<and> \<not> isContextLength (body_text r) then
                   attempts prov sanitizedText truncatedText title retries (attempt + 1)
                     (setTimeout (2 ^ attempt * 1000) tr1)
                 else fallbackChain prov sanitizedText title r tr1
               else (Inl (Api_error (status r) (body_text r)), tr1)
             else (readEmbedding r, tr1))
      else (Inl Retries_exhausted, tr))"
  by pat_completeness auto
termination
  by (relation "measure (\<lambda>(prov, sanitizedText, truncatedText, title, retries, attempt, tr).
        Suc retries - attempt)") auto

declare attempts.simps [simp del]

definition truncatedText :: "string \<Rightarrow> string" where
  "truncatedText sanitizedText =
     (let maxLength = 32000
      in if length sanitizedText > maxLength
         then substring0 sanitizedText maxLength else sanitizedText)"

definition generateEmbedding :: "'e provider \<Rightarrow> string \<Rightarrow> string option \<Rightarrow> nat \<Rightarrow> event list
    \<Rightarrow> (error + 'e list) \<times> event list" where
  "generateEmbedding prov txt title retries tr =
     (let sanitizedText = sanitizeText txt
      in attempts prov sanitizedText (truncatedText sanitizedText) title retries 0 tr)"

section \<open>The data model (\<open>semantic_search.ts\<close>)\<close>

text \<open>
  \<open>NoteVector\<close> is the record of the vector store. Its two kinds of number are type
  parameters: \<open>'m\<close> for the modification time and \<open>'e\<close> for a component of an
  embedding. Modification times are only stored and compared with \<open>===\<close>, which on
  the millisecond counts of a file system is equality.
\<close>

record ('m, 'e) NoteVector =
  path :: string
  embedding :: "'e list"
  mtime :: 'm

text \<open>
  A \<open>TFile\<close> of the vault, with what \<open>vault.read(file)\<close> gives for it: \<open>None\<close>
  when the read is rejected.
\<close>

record 'm TFile =
  file_path :: string
  basename :: string
  stat_mtime :: 'm
  content :: "string option"

type_synonym byte = "8 word"

text \<open>
  What the program takes from its platform and from its text normaliser:
  \<open>TextEncoder\<close> and \<open>TextDecoder\<close>, the float accessors of \<open>DataView\<close> (the bytes
  written by \<open>setFloat64\<close> and \<open>setFloat32\<close> in little-endian order, and the values
  read back from such bytes), \<open>JSON.stringify\<close> and \<open>JSON.parse\<close> on the vector
  array (\<open>None\<close> when \<open>JSON.parse\<close> throws), and \<open>preprocessContent\<close>, a chain of
  regular-expression replacements whose result no property below depends on.
\<close>

record ('m, 'e) env =
  encode :: "string \<Rightarrow> byte list"
  decode :: "byte list \<Rightarrow> string"
  setFloat64 :: "'m \<Rightarrow> byte list"
  getFloat64 :: "byte list \<Rightarrow> 'm"
  setFloat32 :: "'e \<Rightarrow> byte list"
  getFloat32 :: "byte list \<Rightarrow> 'e"
  stringify :: "('m, 'e) NoteVector list \<Rightarrow> string"
  parse :: "string \<Rightarrow> ('m, 'e) NoteVector list option"
  preprocessContent :: "string \<Rightarrow> string"

section \<open>The binary vector file\<close>

text \<open>\<open>view.setUint32(offset, n, true)\<close>: \<open>n\<close> modulo \<open>2^32\<close>, low byte first.\<close>

definition setUint32 :: "nat \<Rightarrow> byte list" where
  "setUint32 n =
     [of_nat (n mod 256), of_nat (n div 256 mod 256),
      of_nat (n div 65536 mod 256), of_nat (n div 16777216 mod 256)]"

text \<open>
  The reads of a \<open>DataView\<close> and the construction of a \<open>Uint8Array\<close> over the buffer
  throw a \<open>RangeError\<close> when they reach past the end of the buffer.
\<close>

definition getUint32 :: "byte list \<Rightarrow> nat \<Rightarrow> error + nat" where
  "getUint32 buffer offset =
     (if offset + 4 \<le> length buffer
      then Inr (unat (buffer ! offset) + 256 * unat (buffer ! (offset + 1))
                + 65536 * unat (buffer ! (offset + 2)) + 16777216 * unat (buffer ! (offset + 3)))
      else Inl Range_error)"

definition bytesAt :: "byte list \<Rightarrow> nat \<Rightarrow> nat \<Rightarrow> error + byte list" where
  "bytesAt buffer offset len =
     (if offset + len \<le> length buffer
      then Inr (take len (drop offset buffer))
      else Inl Range_error)"

definition magic :: "byte list" where
  "magic = [0x56, 0x45, 0x43, 0x31]"

text \<open>
  \<open>setFloat32(offset, v.embedding[i], true)\<close>: past the end of the embedding the
  component is \<open>undefined\<close> and the bytes written are those of the float NaN.
\<close>

definition nan32 :: "byte list" where
  "nan32 = [0x00, 0x00, 0xC0, 0x7F]"

definition embeddingBytes :: "('m, 'e) env \<Rightarrow> nat \<Rightarrow> 'e list \<Rightarrow> byte list" where
  "embeddingBytes E dimension e =
     concat (map (\<lambda>i. if i < length e then setFloat32 E (e ! i) else nan32) [0..<dimension])"

definition vectorBytes :: "('m, 'e) env \<Rightarrow> nat \<Rightarrow> ('m, 'e) NoteVector \<Rightarrow> byte list" where
  "vectorBytes E dimension v =
     (let pathBytes = encode E (path v)
      in setUint32 (length pathBytes) @ pathBytes @ setFloat64 E (mtime v)
         @ embeddingBytes E dimension (embedding v))"

text \<open>
  The buffer that \<open>saveVectorsBinary\<close> fills, for a store that is not empty: the
  dimension is the length of the first embedding.
\<close>

definition bufferOf :: "('m, 'e) env \<Rightarrow> ('m, 'e) NoteVector list \<Rightarrow> byte list" where
  "bufferOf E vs =
     (let dimension = length (embedding (hd vs))
      in magic @ setUint32 (length vs) @ setUint32 dimension
         @ concat (map (vectorBytes E dimension) vs))"

text \<open>The inner loop of \<open>loadVectorsBinary\<close>: \<open>dimension\<close> floats from \<open>offset\<close> on.\<close>

fun readEmbeddingAt :: "('m, 'e) env \<Rightarrow> byte list \<Rightarrow> nat \<Rightarrow> nat \<Rightarrow> error + ('e list \<times> nat)" where
  "readEmbeddingAt E buffer offset 0 = Inr ([], offset)"
| "readEmbeddingAt E buffer offset (Suc j) =
     (case bytesAt buffer offset 4 of
        Inl err \<Rightarrow> Inl err
      | Inr bs \<Rightarrow>
          (case readEmbeddingAt E buffer (offset + 4) j of
             Inl err \<Rightarrow> Inl err
           | Inr (xs, offset') \<Rightarrow> Inr (getFloat32 E bs # xs, offset')))"

text \<open>The outer loop: \<open>numVectors\<close> records from \<open>offset\<close> on, pushed onto \<open>acc\<close>.\<close>

fun readVectors :: "('m, 'e) env \<Rightarrow> byte list \<Rightarrow> nat \<Rightarrow> nat \<Rightarrow> nat \<Rightarrow> ('m, 'e) NoteVector list
    \<Rightarrow> error + ('m, 'e) NoteVector list" where
  "readVectors E buffer offset 0 dimension acc = Inr acc"
| "readVectors E buffer offset (Suc n) dimension acc =
     (case getUint32 buffer offset of
        Inl err \<Rightarrow> Inl err
      | Inr pathLen \<Rightarrow>
          (case bytesAt buffer (offset + 4) pathLen of
             Inl err \<Rightarrow> Inl err
           | Inr pathBytes \<Rightarrow>
               (case bytesAt buffer (offset + 4 + pathLen) 8 of
                  Inl err \<Rightarrow> Inl err
                | Inr mtimeBytes \<Rightarrow>
                    (case readEmbeddingAt E buffer (offset + 4 + pathLen + 8) dimension of
                       Inl err \<Rightarrow> Inl err
                     | Inr (e, offset') \<Rightarrow>
                         readVectors E buffer offset' n dimension
                           (acc @ [\<lparr>path = decode E pathBytes, embedding = e,
                                    mtime = getFloat64 E mtimeBytes\<rparr>])))))"

text \<open>The body of the \<open>try\<close> block of \<open>loadVectorsBinary\<close>, after the file is read.\<close>

definition parseVectors :: "('m, 'e) env \<Rightarrow> byte list \<Rightarrow> ('m, 'e) NoteVector list
    \<Rightarrow> error + ('m, 'e) NoteVector list" where
  "parseVectors E buffer acc =
     (case bytesAt buffer 0 4 of
        Inl err \<Rightarrow> Inl err
      | Inr m \<Rightarrow>
          if m \<noteq> magic then Inl Invalid_format
          else
            (case getUint32 buffer 4 of
               Inl err \<Rightarrow> Inl err
             | Inr numVectors \<Rightarrow>
                 (case getUint32 buffer 8 of
                    Inl err \<Rightarrow> Inl err
                  | Inr dimension \<Rightarrow> readVectors E buffer 12 numVectors dimension acc)))"

text \<open>
  A record is storable when the conversions of the platform give it back: decoding
  the encoded path gives the path (it is well-formed text that does not begin with a
  byte order mark), the encoded path is shorter than \<open>2^32\<close> bytes, the
  modification time is written as eight bytes and read back from them, and every
  component of the embedding is written as four bytes and read back from them (it is a
  32-bit float).
\<close>

definition storable :: "('m, 'e) env \<Rightarrow> ('m, 'e) NoteVector \<Rightarrow> bool" where
  "storable E v =
     (decode E (encode E (path v)) = path v
      \<and> length (encode E (path v)) < 4294967296
      \<and> length (setFloat64 E (mtime v)) = 8
      \<and> getFloat64 E (setFloat64 E (mtime v)) = mtime v
      \<and> (\<forall>x\<in>set (embedding v). length (setFloat32 E x) = 4 \<and> getFloat32 E (setFloat32 E x) = x))"

text \<open>
  A store can be written in the binary format without loss when it is not empty, all
  its records are storable, all embeddings have the length of the first one, and the
  number of records and that length are below \<open>2^32\<close>.
\<close>

definition consistent :: "('m, 'e) env \<Rightarrow> ('m, 'e) NoteVector list \<Rightarrow> bool" where
  "consistent E vs =
     (vs \<noteq> [] \<and> length vs < 4294967296 \<and> length (embedding (hd vs)) < 4294967296
      \<and> (\<forall>v\<in>set vs. storable E v \<and> length (embedding v) = length (embedding (hd vs))))"

section \<open>The service state\<close>

datatype storage_format = Json_format | Binary_format

text \<open>The lines the service writes to the console (\<open>Error_\<close>: \<open>console.error\<close>).\<close>

datatype console_msg =
    Error_failed_load_binary error
  | Error_failed_load_json
  | Error_failed_save error
  | Error_failed_index string error
  | Error_indexing_failed error
  | Log_loaded_binary nat
  | Log_loaded_json nat
  | Log_saved_binary nat nat
  | Log_saved_json nat
  | Log_removed_legacy
  | Log_cancelled_by_user
  | Log_already_in_progress
  | Log_indexing string
  | Log_snippet string
  | Log_skipping string
  | Log_pruned nat
  | Log_complete nat nat nat
  | Log_failed_files "string list"
  | Log_cancelled
  | Log_saving_partial

text \<open>
  The fields of \<open>SemanticSearchService\<close> together with the world it acts on: the two
  files of the vector store (\<open>vectors.bin\<close> and \<open>vectors.json\<close>, \<open>None\<close> when the
  file does not exist), whether the adapter accepts writes, the trace of the provider
  client, the console, and the progress reports passed to \<open>onIndexingProgress\<close>.
\<close>

record ('m, 'e) service =
  vectors :: "('m, 'e) NoteVector list"
  format :: storage_format
  debugMode :: bool
  isIndexing :: bool
  currentProgress :: nat
  totalFiles :: nat
  abortController :: bool
  binFile :: "byte list option"
  jsonFile :: "string option"
  writable :: bool
  network :: "event list"
  console :: "console_msg list"
  progress :: "(nat \<times> nat) list"

definition console_log :: "console_msg \<Rightarrow> ('m, 'e) service \<Rightarrow> ('m, 'e) service" where
  "console_log m st = st\<lparr>console := console st @ [m]\<rparr>"

section \<open>Loading and saving\<close>

text \<open>
  Reading a file that exists succeeds, and the directory of the plugin exists. A write
  or a removal is rejected when the adapter does not accept writes. \<open>JSON.parse\<close>
  is taken to give an array of records or to throw.
\<close>

definition loadVectorsBinary :: "('m, 'e) env \<Rightarrow> ('m, 'e) service \<Rightarrow> ('m, 'e) service" where
  "loadVectorsBinary E st =
     (case binFile st of
        None \<Rightarrow> console_log (Error_failed_load_binary Read_failed) (st\<lparr>vectors := []\<rparr>)
      | Some buffer \<Rightarrow>
          (case parseVectors E buffer (vectors st) of
             Inl err \<Rightarrow> console_log (Error_failed_load_binary err) (st\<lparr>vectors := []\<rparr>)
           | Inr vs \<Rightarrow> console_log (Log_loaded_binary (length vs)) (st\<lparr>vectors := vs\<rparr>)))"

definition loadVectorsJson :: "('m, 'e) env \<Rightarrow> ('m, 'e) service \<Rightarrow> ('m, 'e) service" where
  "loadVectorsJson E st =
     (case jsonFile st of
        None \<Rightarrow> console_log Error_failed_load_json (st\<lparr>vectors := []\<rparr>)
      | Some txt \<Rightarrow>
          (case parse E txt of
             None \<Rightarrow> console_log Error_failed_load_json (st\<lparr>vectors := []\<rparr>)
           | Some vs \<Rightarrow> console_log (Log_loaded_json (length vs)) (st\<lparr>vectors := vs\<rparr>)))"

definition loadVectors :: "('m, 'e) env \<Rightarrow> ('m, 'e) service \<Rightarrow> ('m, 'e) service" where
  "loadVectors E st =
     (let st0 = st\<lparr>vectors := []\<rparr>
      in if format st0 = Binary_format then
           if binFile st0 \<noteq> None then loadVectorsBinary E st0
           else if jsonFile st0 \<noteq> None then loadVectorsJson E st0
           else st0
         else
           if jsonFile st0 \<noteq> None then loadVectorsJson E st0 else st0)"

definition saveVectorsJson :: "('m, 'e) env \<Rightarrow> ('m, 'e) service \<Rightarrow> (error + unit) \<times> ('m, 'e) service" where
  "saveVectorsJson E st =
     (if \<not> writable st then (Inl Write_failed, st)
      else (Inr (), console_log (Log_saved_json (length (vectors st)))
                      (st\<lparr>jsonFile := Some (stringify E (vectors st))\<rparr>)))"

definition saveVectorsBinary :: "('m, 'e) env \<Rightarrow> ('m, 'e) service \<Rightarrow> (error + unit) \<times> ('m, 'e) service" where
  "saveVectorsBinary E st =
     (if length (vectors st) = 0 then (Inr (), st)
      else if \<not> writable st then (Inl Write_failed, st)
      else
        (let buffer = bufferOf E (vectors st);
             st1 = console_log (Log_saved_binary (length (vectors st)) (length buffer))
                     (st\<lparr>binFile := Some buffer\<rparr>)
         in if jsonFile st1 \<noteq> None
            then (Inr (), console_log Log_removed_legacy (st1\<lparr>jsonFile := None\<rparr>))
            else (Inr (), st1)))"

definition saveVectors :: "('m, 'e) env \<Rightarrow> ('m, 'e) service \<Rightarrow> (error + unit) \<times> ('m, 'e) service" where
  "saveVectors E st =
     (case (if format st = Binary_format then saveVectorsBinary E st else saveVectorsJson E st) of
        (Inl err, st') \<Rightarrow> (Inl err, console_log (Error_failed_save err) st')
      | (Inr u, st') \<Rightarrow> (Inr u, st'))"

section \<open>Indexing one note\<close>

text \<open>\<open>array.findIndex(p)\<close>, with \<open>None\<close> for \<open>-1\<close>.\<close>

fun findIndex :: "('a \<Rightarrow> bool) \<Rightarrow> 'a list \<Rightarrow> nat option" where
  "findIndex p [] = None"
| "findIndex p (x # xs) =
     (if p x then Some 0 else map_option Suc (findIndex p xs))"

text \<open>
  The end of \<open>indexNote\<close>, after the embedding has arrived: the record is written at
  \<open>existingIndex\<close>, the index found before the request, or else at the index found by
  the second look at the store, or else pushed. In a run without interleaving
  \<open>existingIndex\<close> is an index of the store as it is now.
\<close>

definition storeVector :: "nat option \<Rightarrow> 'm TFile \<Rightarrow> 'e list \<Rightarrow> ('m, 'e) NoteVector list
    \<Rightarrow> ('m, 'e) NoteVector list" where
  "storeVector existingIndex file e vs =
     (let v = \<lparr>path = file_path file, embedding = e, mtime = stat_mtime file\<rparr>
      in case existingIndex of
           Some i \<Rightarrow> vs[i := v]
         | None \<Rightarrow>
             (case findIndex (\<lambda>v. path v = file_path file) vs of
                Some doubleCheckIndex \<Rightarrow> vs[doubleCheckIndex := v]
              | None \<Rightarrow> vs @ [v]))"

definition indexNote :: "('m, 'e) env \<Rightarrow> 'e provider \<Rightarrow> 'm TFile \<Rightarrow> ('m, 'e) service
    \<Rightarrow> (error + unit) \<times> ('m, 'e) service" where
  "indexNote E prov file st =
     (let existingIndex = findIndex (\<lambda>v. path v = file_path file) (vectors st);
          existingVector = map_option (\<lambda>i. vectors st ! i) existingIndex
      in if (case existingVector of None \<Rightarrow> False | Some v \<Rightarrow> mtime v = stat_mtime file)
         then (Inr (), st)
         else
           (case content file of
              None \<Rightarrow> (Inl Read_failed, st)
            | Some c \<Rightarrow>
                (case generateEmbedding prov (preprocessContent E c) (Some (basename file)) 3
                        (network st) of
                   (Inl err, tr) \<Rightarrow> (Inl err, st\<lparr>network := tr\<rparr>)
                 | (Inr e, tr) \<Rightarrow>
                     (Inr (), st\<lparr>network := tr,
                                vectors := storeVector existingIndex file e (vectors st)\<rparr>))))"

section \<open>Indexing the corpus\<close>

text \<open>
  \<open>cancelIndexing\<close> is called by the host while \<open>indexAll\<close> waits. What \<open>indexAll\<close>
  sees of it is \<open>signal.aborted\<close> at its next check; in the model of \<open>indexAll\<close> this
  is the parameter \<open>signal\<close>, which says for each document number (counted from 1)
  whether the signal is aborted when the loop checks it for that document.
\<close>

definition cancelIndexing :: "('m, 'e) service \<Rightarrow> ('m, 'e) service" where
  "cancelIndexing st =
     (if abortController st
      then console_log Log_cancelled_by_user (st\<lparr>abortController := False, isIndexing := False\<rparr>)
      else st)"

record loop_vars =
  processedCount :: nat
  successCount :: nat
  errorCount :: nat
  failedFiles :: "string list"
  changed :: bool

text \<open>
  The \<open>catch\<close> block inside the loop: it reads the note once more for the log, and a
  rejected read leaves the loop as an exception.
\<close>

definition indexFailed :: "'m TFile \<Rightarrow> error \<Rightarrow> loop_vars \<Rightarrow> ('m, 'e) service
    \<Rightarrow> error option \<times> loop_vars \<times> ('m, 'e) service" where
  "indexFailed file err lv st =
     (let st1 = console_log (Error_failed_index (file_path file) err) st
      in case content file of
           None \<Rightarrow> (Some Read_failed, lv, st1)
         | Some c \<Rightarrow>
             (None,
              lv\<lparr>failedFiles := failedFiles lv @ [file_path file], errorCount := errorCount lv + 1\<rparr>,
              console_log (Log_snippet (substring0 c 100)) st1))"

text \<open>
  One turn of the loop of \<open>indexAll\<close>; the first component is the exception that
  leaves the loop, if any. (The turn also yields to the event loop at every fifth
  document, which changes nothing in the state.)
\<close>

definition indexAll_step :: "('m, 'e) env \<Rightarrow> 'e provider \<Rightarrow> (nat \<Rightarrow> bool) \<Rightarrow> nat \<Rightarrow> 'm TFile
    \<Rightarrow> loop_vars \<Rightarrow> ('m, 'e) service \<Rightarrow> error option \<times> loop_vars \<times> ('m, 'e) service" where
  "indexAll_step E prov signal totalCount file lv st =
     (let lv1 = lv\<lparr>processedCount := processedCount lv + 1\<rparr>;
          st1 = st\<lparr>currentProgress := processedCount lv1,
                   progress := progress st @ [(processedCount lv1, totalCount)]\<rparr>
      in if signal (processedCount lv1) then (Some Cancelled, lv1, st1)
         else
           (case find (\<lambda>v. path v = file_path file) (vectors st1) of
              Some existing \<Rightarrow>
                if mtime existing \<noteq> stat_mtime file then
                  (case indexNote E prov file (console_log (Log_indexing (file_path file)) st1) of
                     (Inl err, st2) \<Rightarrow> indexFailed file err lv1 st2
                   | (Inr u, st2) \<Rightarrow>
                       (let lv2 = lv1\<lparr>changed := True, successCount := successCount lv1 + 1\<rparr>
                        in if successCount lv2 mod 10 = 0 then
                             (case saveVectors E st2 of
                                (Inl err, st3) \<Rightarrow> indexFailed file err lv2 st3
                              | (Inr u, st3) \<Rightarrow> (None, lv2, st3))
                           else (None, lv2, st2)))
                else
                  (None, lv1, if debugMode st1 then console_log (Log_skipping (file_path file)) st1 else st1)
            | None \<Rightarrow>
                (case indexNote E prov file (console_log (Log_indexing (file_path file)) st1) of
                   (Inl err, st2) \<Rightarrow> indexFailed file err lv1 st2
                 | (Inr u, st2) \<Rightarrow>
                     (let lv2 = lv1\<lparr>changed := True, successCount := successCount lv1 + 1\<rparr>
                      in if successCount lv2 mod 10 = 0 then
                           (case saveVectors E st2 of
                              (Inl err, st3) \<Rightarrow> indexFailed file err lv2 st3
                            | (Inr u, st3) \<Rightarrow> (None, lv2, st3))
                         else (None, lv2, st2)))))"

fun indexAll_loop :: "('m, 'e) env \<Rightarrow> 'e provider \<Rightarrow> (nat \<Rightarrow> bool) \<Rightarrow> nat \<Rightarrow> 'm TFile list
    \<Rightarrow> loop_vars \<Rightarrow> ('m, 'e) service \<Rightarrow> error option \<times> loop_vars \<times> ('m, 'e) service" where
  "indexAll_loop E prov signal totalCount [] lv st = (None, lv, st)"
| "indexAll_loop E prov signal totalCount (file # files) lv st =
     (case indexAll_step E prov signal totalCount file lv st of
        (Some err, lv', st') \<Rightarrow> (Some err, lv', st')
      | (None, lv', st') \<Rightarrow> indexAll_loop E prov signal totalCount files lv' st')"

text \<open>The pruning of \<open>indexAll\<close>: the records whose path is the path of no file go.\<close>

definition prune :: "'m TFile list \<Rightarrow> ('m, 'e) NoteVector list \<Rightarrow> ('m, 'e) NoteVector list" where
  "prune files vs =
     (let currentFilePaths = set (map file_path files)
      in filter (\<lambda>v. path v \<in> currentFilePaths) vs)"

text \<open>What follows the loop inside the \<open>try\<close> block.\<close>

definition indexAll_finish :: "('m, 'e) env \<Rightarrow> 'm TFile list \<Rightarrow> loop_vars \<Rightarrow> ('m, 'e) service
    \<Rightarrow> error option \<times> ('m, 'e) service" where
  "indexAll_finish E files lv st =
     (case (if successCount lv > 0 then saveVectors E st else (Inr (), st)) of
        (Inl err, st1) \<Rightarrow> (Some err, st1)
      | (Inr u, st1) \<Rightarrow>
          (let initialVectorCount = length (vectors st1);
               st2 = st1\<lparr>vectors := prune files (vectors st1)\<rparr>;
               prunedCount = initialVectorCount - length (vectors st2)
           in case (if prunedCount > 0 then saveVectors E (console_log (Log_pruned prunedCount) st2)
                    else (Inr (), st2)) of
                (Inl err, st3) \<Rightarrow> (Some err, st3)
              | (Inr u, st3) \<Rightarrow>
                  (let st4 = (if debugMode st3
                              then console_log (Log_complete (successCount lv) (errorCount lv) prunedCount) st3
                              else st3)
                   in (None, if length (failedFiles lv) > 0 \<and> debugMode st4
                             then console_log (Log_failed_files (failedFiles lv)) st4 else st4))))"

text \<open>
  The outer \<open>catch\<close> block. A cancellation saves the progress, and a failure of that
  save leaves \<open>indexAll\<close> as an exception; every other exception is logged. The
  function returns normally in both cases.
\<close>

definition indexAll_catch :: "('m, 'e) env \<Rightarrow> error \<Rightarrow> loop_vars \<Rightarrow> ('m, 'e) service
    \<Rightarrow> (error + unit) \<times> ('m, 'e) service" where
  "indexAll_catch E err lv st =
     (if err = Cancelled then
        (let st1 = (if debugMode st then console_log Log_cancelled st else st)
         in if successCount lv > 0
            then saveVectors E (if debugMode st1 then console_log Log_saving_partial st1 else st1)
            else (Inr (), st1))
      else (Inr (), console_log (Error_indexing_failed err) st))"

definition indexAll :: "('m, 'e) env \<Rightarrow> 'e provider \<Rightarrow> (nat \<Rightarrow> bool) \<Rightarrow> 'm TFile list
    \<Rightarrow> ('m, 'e) service \<Rightarrow> (error + unit) \<times> ('m, 'e) service" where
  "indexAll E prov signal files st =
     (if isIndexing st then (Inr (), console_log Log_already_in_progress st)
      else
        (let st1 = loadVectors E (st\<lparr>isIndexing := True, abortController := True\<rparr>);
             lv0 = \<lparr>processedCount = 0, successCount = 0, errorCount = 0, failedFiles = [],
                    changed = False\<rparr>;
             (res, st5) =
               (case indexAll_loop E prov signal (length files) files lv0
                       (st1\<lparr>totalFiles := length files\<rparr>) of
                  (Some err, lv, st2) \<Rightarrow> indexAll_catch E err lv st2
                | (None, lv, st2) \<Rightarrow>
                    (case indexAll_finish E files lv st2 of
                       (Some err, st3) \<Rightarrow> indexAll_catch E err lv st3
                     | (None, st3) \<Rightarrow> (Inr (), st3)))
         in (res, st5\<lparr>isIndexing := False, abortController := False\<rparr>)))"

section \<open>Similarity\<close>

text \<open>
  A JavaScript number in the similarity computation: not-a-number, the two infinities,
  or a finite value. The two zeros are not told apart. An arithmetic operation on
  finite values rounds its exact result, and the rounding \<open>rnd\<close> (which also decides
  when a result overflows to an infinity) is a parameter of the model; on the special
  values the operations follow IEEE 754.
\<close>

datatype number = NaN | PosInf | NegInf | Num real

fun num_neg :: "number \<Rightarrow> number" where
  "num_neg NaN = NaN"
| "num_neg PosInf = NegInf"
| "num_neg NegInf = PosInf"
| "num_neg (Num a) = Num (- a)"

fun num_add :: "(real \<Rightarrow> number) \<Rightarrow> number \<Rightarrow> number \<Rightarrow> number" where
  "num_add rnd NaN y = NaN"
| "num_add rnd x NaN = NaN"
| "num_add rnd PosInf NegInf = NaN"
| "num_add rnd NegInf PosInf = NaN"
| "num_add rnd PosInf y = PosInf"
| "num_add rnd NegInf y = NegInf"
| "num_add rnd (Num a) PosInf = PosInf"
| "num_add rnd (Num a) NegInf = NegInf"
| "num_add rnd (Num a) (Num b) = rnd (a + b)"

definition num_sub :: "(real \<Rightarrow> number) \<Rightarrow> number \<Rightarrow> number \<Rightarrow> number" where
  "num_sub rnd x y = num_add rnd x (num_neg y)"

text \<open>The sign of a number that is not NaN: \<open>1\<close>, \<open>0\<close> or \<open>-1\<close>.\<close>

fun num_sgn :: "number \<Rightarrow> real" where
  "num_sgn NaN = 0"
| "num_sgn PosInf = 1"
| "num_sgn NegInf = - 1"
| "num_sgn (Num a) = sgn a"

definition signed_inf :: "real \<Rightarrow> number" where
  "signed_inf s = (if s = 0 then NaN else if s > 0 then PosInf else NegInf)"

fun num_mul :: "(real \<Rightarrow> number) \<Rightarrow> number \<Rightarrow> number \<Rightarrow> number" where
  "num_mul rnd NaN y = NaN"
| "num_mul rnd x NaN = NaN"
| "num_mul rnd (Num a) (Num b) = rnd (a * b)"
| "num_mul rnd x y = signed_inf (num_sgn x * num_sgn y)"

text \<open>
  Division. A finite value that is not zero, divided by zero, gives the infinity of its
  sign: the only divisor in this program is a product of square roots, whose zero is
  the positive one.
\<close>

fun num_div :: "(real \<Rightarrow> number) \<Rightarrow> number \<Rightarrow> number \<Rightarrow> number" where
  "num_div rnd NaN y = NaN"
| "num_div rnd x NaN = NaN"
| "num_div rnd (Num a) (Num b) = (if b = 0 then signed_inf (sgn a) else rnd (a / b))"
| "num_div rnd (Num a) y = Num 0"
| "num_div rnd x (Num b) = (if b < 0 then num_neg x else x)"
| "num_div rnd x y = NaN"

fun num_sqrt :: "(real \<Rightarrow> number) \<Rightarrow> number \<Rightarrow> number" where
  "num_sqrt rnd NaN = NaN"
| "num_sqrt rnd PosInf = PosInf"
| "num_sqrt rnd NegInf = NaN"
| "num_sqrt rnd (Num a) = (if a < 0 then NaN else rnd (sqrt a))"

text \<open>\<open>x > 0\<close> and \<open>x >= y\<close> on numbers; every comparison with NaN is false.\<close>

fun num_pos :: "number \<Rightarrow> bool" where
  "num_pos PosInf = True"
| "num_pos (Num a) = (0 < a)"
| "num_pos _ = False"

fun num_ge :: "number \<Rightarrow> number \<Rightarrow> bool" where
  "num_ge NaN y = False"
| "num_ge x NaN = False"
| "num_ge PosInf y = True"
| "num_ge x NegInf = True"
| "num_ge NegInf y = False"
| "num_ge x PosInf = False"
| "num_ge (Num a) (Num b) = (b \<le> a)"

text \<open>\<open>xs[i]\<close> in arithmetic: past the end it is \<open>undefined\<close>, which counts as NaN.\<close>

definition elem :: "number list \<Rightarrow> nat \<Rightarrow> number" where
  "elem xs i = (if i < length xs then xs ! i else NaN)"

definition cosineSimilarity :: "(real \<Rightarrow> number) \<Rightarrow> number list \<Rightarrow> number list \<Rightarrow> number" where
  "cosineSimilarity rnd a b =
     (let (dotProduct, normA, normB) =
            fold (\<lambda>i (dotProduct, normA, normB).
                    (num_add rnd dotProduct (num_mul rnd (elem a i) (elem b i)),
                     num_add rnd normA (num_mul rnd (elem a i) (elem a i)),
                     num_add rnd normB (num_mul rnd (elem b i) (elem b i))))
              [0..<length a] (Num 0, Num 0, Num 0)
      in num_div rnd dotProduct (num_mul rnd (num_sqrt rnd normA) (num_sqrt rnd normB)))"

section \<open>Ranking\<close>

text \<open>
  \<open>array.sort(comparefn)\<close>. ECMAScript asks for a stable sort and takes a comparison
  result that is NaN for zero; an element moves behind another one only when the
  comparison of the two is positive. For a consistent comparison function every
  conforming sort returns the list this insertion sort returns. (For an inconsistent
  one, the order is left to the implementation.)
\<close>

fun insert_by :: "('a \<Rightarrow> 'a \<Rightarrow> number) \<Rightarrow> 'a \<Rightarrow> 'a list \<Rightarrow> 'a list" where
  "insert_by cmp x [] = [x]"
| "insert_by cmp x (y # ys) =
     (if num_pos (cmp x y) then y # insert_by cmp x ys else x # y # ys)"

definition js_sort :: "('a \<Rightarrow> 'a \<Rightarrow> number) \<Rightarrow> 'a list \<Rightarrow> 'a list" where
  "js_sort cmp xs = foldr (insert_by cmp) xs []"

text \<open>\<open>array.slice(0, k)\<close>: a negative \<open>k\<close> counts from the end.\<close>

definition slice0 :: "'a list \<Rightarrow> int \<Rightarrow> 'a list" where
  "slice0 xs k = (if k < 0 then take (nat (int (length xs) + k)) xs else take (nat k) xs)"

text \<open>The comparison function \<open>(a, b) => b.score - a.score\<close> on pairs of path and score.\<close>

definition byScore :: "(real \<Rightarrow> number) \<Rightarrow> string \<times> number \<Rightarrow> string \<times> number \<Rightarrow> number" where
  "byScore rnd a b = num_sub rnd (snd b) (snd a)"

text \<open>
  The ranking that \<open>findRelated\<close> and \<open>searchByText\<close> share: score every candidate
  against the query, sort, and keep the first \<open>topK\<close>.
\<close>

definition scoreAll :: "(real \<Rightarrow> number) \<Rightarrow> number list \<Rightarrow> ('m, number) NoteVector list
    \<Rightarrow> (string \<times> number) list" where
  "scoreAll rnd query candidates =
     map (\<lambda>v. (path v, cosineSimilarity rnd query (embedding v))) candidates"

definition topScores :: "(real \<Rightarrow> number) \<Rightarrow> number list \<Rightarrow> ('m, number) NoteVector list \<Rightarrow> int
    \<Rightarrow> (string \<times> number) list" where
  "topScores rnd query candidates topK =
     slice0 (js_sort (byScore rnd) (scoreAll rnd query candidates)) topK"

text \<open>
  A list of scored paths is in descending order when every score is \<open>>=\<close> every later
  one.
\<close>

definition descending :: "('a \<times> number) list \<Rightarrow> bool" where
  "descending xs = sorted_wrt (\<lambda>s t. num_ge (snd s) (snd t)) xs"

text \<open>
  The comparison function agrees with the order of the scores on a list when
  \<open>b.score - a.score\<close> is positive exactly for the pairs where the score of \<open>a\<close> is
  not \<open>>=\<close> the score of \<open>b\<close>. This fails as soon as one score is NaN. Without NaN
  it holds for every rounding under which the difference of two finite scores keeps the
  sign of the exact difference, as it does in IEEE 754.
\<close>

definition agrees :: "(real \<Rightarrow> number) \<Rightarrow> (string \<times> number) list \<Rightarrow> bool" where
  "agrees rnd xs =
     (\<forall>s\<in>set xs. \<forall>t\<in>set xs. num_pos (byScore rnd s t) = (\<not> num_ge (snd s) (snd t)))"

text \<open>A number is zero or NaN.\<close>

definition zero_or_nan :: "number \<Rightarrow> bool" where
  "zero_or_nan x = (x = Num 0 \<or> x = NaN)"

text \<open>
  The last step of both: a path stays when \<open>vault.getAbstractFileByPath\<close> gives a
  \<open>TFile\<close> for it (\<open>vault s = None\<close> when it gives \<open>null\<close> or a folder).
\<close>

definition resolveFiles :: "(string \<Rightarrow> 'm TFile option) \<Rightarrow> (string \<times> number) list
    \<Rightarrow> ('m TFile \<times> number) list" where
  "resolveFiles vault scores =
     List.map_filter (\<lambda>s. case vault (fst s) of None \<Rightarrow> None | Some f \<Rightarrow> Some (f, snd s)) scores"

definition findRelated :: "(real \<Rightarrow> number) \<Rightarrow> (string \<Rightarrow> 'm TFile option) \<Rightarrow> 'm TFile \<Rightarrow> int
    \<Rightarrow> ('m, number) NoteVector list \<Rightarrow> ('m TFile \<times> number) list" where
  "findRelated rnd vault file topK vs =
     (case find (\<lambda>v. path v = file_path file) vs of
        None \<Rightarrow> []
      | Some targetVector \<Rightarrow>
          resolveFiles vault
            (topScores rnd (embedding targetVector)
               (filter (\<lambda>v. path v \<noteq> file_path file) vs) topK))"

definition searchByText :: "(real \<Rightarrow> number) \<Rightarrow> number provider \<Rightarrow> (string \<Rightarrow> 'm TFile option)
    \<Rightarrow> string \<Rightarrow> int \<Rightarrow> ('m, number) service
    \<Rightarrow> (error + ('m TFile \<times> number) list) \<times> ('m, number) service" where
  "searchByText rnd prov vault query topK st =
     (case generateEmbedding prov query None 3 (network st) of
        (Inl err, tr) \<Rightarrow> (Inl err, st\<lparr>network := tr\<rparr>)
      | (Inr e, tr) \<Rightarrow>
          (Inr (resolveFiles vault (topScores rnd e (vectors st) topK)), st\<lparr>network := tr\<rparr>))"

section \<open>Sample inputs\<close>

text \<open>
  Concrete inputs on which the model is run below. In the sample environment a
  modification time is a natural number written as eight bytes, a component of an
  embedding is a natural number written as four bytes, a path is written one byte per
  character, and the text normaliser changes nothing.
\<close>

definition sample_env :: "(nat, nat) env" where
  "sample_env =
     \<lparr>encode = map (\<lambda>c. of_nat (of_char c)),
      decode = map (\<lambda>b. char_of (unat b)),
      setFloat64 = (\<lambda>m. setUint32 (m mod 4294967296) @ setUint32 (m div 4294967296)),
      getFloat64 = (\<lambda>bs. (case getUint32 bs 0 of Inl err \<Rightarrow> 0 | Inr lo \<Rightarrow> lo)
                        + 4294967296 * (case getUint32 bs 4 of Inl err \<Rightarrow> 0 | Inr hi \<Rightarrow> hi)),
      setFloat32 = setUint32,
      getFloat32 = (\<lambda>bs. case getUint32 bs 0 of Inl err \<Rightarrow> 0 | Inr n \<Rightarrow> n),
      stringify = (\<lambda>vs. concat (map path vs)),
      parse = (\<lambda>txt. None),
      preprocessContent = (\<lambda>txt. txt)\<rparr>"

text \<open>A provider that answers every request with the same embedding.\<close>

definition steady_provider :: "nat provider" where
  "steady_provider tr = Responds \<lparr>status = 200, body_text = [], json = Json (Array [1, 2])\<rparr>"



text \<open>
  A provider that rejects the first request for its length and answers every later
  one with an embedding.
\<close>

definition context_error :: "nat response" where
  "context_error =
     \<lparr>status = 500, body_text = ''input length exceeds the context length'', json = Not_json\<rparr>"

definition short_context_provider :: "nat provider" where
  "short_context_provider tr =
     (if length tr = 1 then Responds context_error
      else Responds \<lparr>status = 200, body_text = [], json = Json (Array [1, 2, 3])\<rparr>)"


definition note_a :: "nat TFile" where
  "note_a = \<lparr>file_path = ''a.md'', basename = ''a'', stat_mtime = 10, content = Some ''alpha''\<rparr>"

definition note_b :: "nat TFile" where
  "note_b = \<lparr>file_path = ''b.md'', basename = ''b'', stat_mtime = 20, content = Some ''beta''\<rparr>"

definition note_c :: "nat TFile" where
  "note_c = \<lparr>file_path = ''c.md'', basename = ''c'', stat_mtime = 30, content = Some ''gamma''\<rparr>"

text \<open>A fresh service: nothing in memory, nothing on disk, binary format.\<close>

definition fresh :: "(nat, nat) service" where
  "fresh =
     \<lparr>vectors = [], format = Binary_format, debugMode = False, isIndexing = False,
      currentProgress = 0, totalFiles = 0, abortController = False, binFile = None,
      jsonFile = None, writable = True, network = [], console = [], progress = []\<rparr>"


text \<open>The fresh service after the first note has been indexed.\<close>

definition after_note_a :: "(nat, nat) service" where
  "after_note_a =
     fresh\<lparr>network := [Request ''alpha''],
           vectors := [\<lparr>path = ''a.md'', embedding = [1, 2], mtime = 10\<rparr>]\<rparr>"

text \<open>Arithmetic without rounding error.\<close>

definition exact :: "real \<Rightarrow> number" where
  "exact x = Num x"

text \<open>Four records with scores 1, 0, 1 and -1 against the query \<open>(1, 0)\<close>.\<close>

definition ranked_store :: "(nat, number) NoteVector list" where
  "ranked_store =
     [\<lparr>path = ''a.md'', embedding = [Num 1, Num 0], mtime = 1\<rparr>,
      \<lparr>path = ''b.md'', embedding = [Num 0, Num 1], mtime = 2\<rparr>,
      \<lparr>path = ''c.md'', embedding = [Num 1, Num 0], mtime = 3\<rparr>,
      \<lparr>path = ''d.md'', embedding = [Num (- 1), Num 0], mtime = 4\<rparr>]"

text \<open>Three records, the second with a zero embedding.\<close>

definition zero_store :: "(nat, number) NoteVector list" where
  "zero_store =
     [\<lparr>path = ''n.md'', embedding = [Num (- 1)], mtime = 1\<rparr>,
      \<lparr>path = ''z.md'', embedding = [Num 0], mtime = 2\<rparr>,
      \<lparr>path = ''p.md'', embedding = [Num 1], mtime = 3\<rparr>]"

text \<open>Two records, and services that hold them in memory or only on disk.\<close>

definition two_records :: "(nat, nat) NoteVector list" where
  "two_records =
     [\<lparr>path = ''a.md'', embedding = [1, 2], mtime = 10\<rparr>,
      \<lparr>path = ''b.md'', embedding = [3, 70000], mtime = 5000000000\<rparr>]"

definition holding_two :: "(nat, nat) service" where
  "holding_two = fresh\<lparr>vectors := two_records\<rparr>"

definition stale :: "(nat, nat) service" where
  "stale = fresh\<lparr>binFile := Some (bufferOf sample_env two_records)\<rparr>"

text \<open>
  Services whose binary file is not a vector file, and whose binary file is the first
  thirty bytes of a good one.
\<close>

definition wrong_magic :: "(nat, nat) service" where
  "wrong_magic = fresh\<lparr>vectors := two_records, binFile := Some [0x4A, 0x53, 0x4F, 0x4E, 0x7B]\<rparr>"

definition cut_short :: "(nat, nat) service" where
  "cut_short = fresh\<lparr>vectors := two_records,
                     binFile := Some (take 30 (bufferOf sample_env two_records))\<rparr>"

text \<open>
  Two cancellation signals: one that is seen aborted from the check for the third
  document on, and one that is never aborted. And the records of the first two notes.
\<close>

definition aborted_from_third :: "nat \<Rightarrow> bool" where
  "aborted_from_third k = (3 \<le> k)"

definition never_aborted :: "nat \<Rightarrow> bool" where
  "never_aborted k = False"

definition first_two :: "(nat, nat) NoteVector list" where
  "first_two =
     [\<lparr>path = ''a.md'', embedding = [1, 2], mtime = 10\<rparr>,
      \<lparr>path = ''b.md'', embedding = [1, 2], mtime = 20\<rparr>]"

text \<open>A service whose binary file is a good one followed by one more byte.\<close>

definition trailing_byte :: "(nat, nat) service" where
  "trailing_byte = fresh\<lparr>binFile := Some (bufferOf sample_env two_records @ [0xFF])\<rparr>"

section \<open>Pruning\<close>

text \<open>
  C8. Pruning against the paths of the current files removes exactly the records whose
  path is not among them: what stays is a subsequence of the store, every record with
  a live path stays as often as it was there and unchanged (embedding and modification
  time included), no record with another path stays, and the number of records removed
  is the number of records with a path that is not live.
\<close>

theorem prune_removes_exactly_the_dead:
  "subseq (prune files vs) vs
   \<and> (\<forall>v. count (mset (prune files vs)) v =
            (if path v \<in> file_path ` set files then count (mset vs) v else 0))
   \<and> length vs - length (prune files vs) =
       length (filter (\<lambda>v. path v \<notin> file_path ` set files) vs)"
proof -
  have kept: "subseq (prune files vs) vs"
    by (simp add: prune_def)
  have exact: "\<forall>v. count (mset (prune files vs)) v =
            (if path v \<in> file_path ` set files then count (mset vs) v else 0)"
    by (simp add: prune_def)
  have "length vs = length (filter (\<lambda>v. path v \<in> file_path ` set files) vs)
          + length (filter (\<lambda>v. path v \<notin> file_path ` set files) vs)"
    by (rule sum_length_filter_compl [symmetric])
  then have removed: "length vs - length (prune files vs) =
       length (filter (\<lambda>v. path v \<notin> file_path ` set files) vs)"
    by (simp add: prune_def)
  from kept exact removed show ?thesis by blast
qed

section \<open>The store keeps one record for each path\<close>


lemma findIndex_Some: "findIndex p xs = Some i \<Longrightarrow> i < length xs \<and> p (xs ! i)"
  by (induction xs arbitrary: i) (auto split: if_splits)

lemma findIndex_update:
  "findIndex p xs = Some i \<Longrightarrow> p v \<Longrightarrow> findIndex p (xs[i := v]) = Some i"
  by (induction xs arbitrary: i) (auto split: if_splits)

lemma findIndex_append_new:
  "findIndex p xs = None \<Longrightarrow> p v \<Longrightarrow> findIndex p (xs @ [v]) = Some (length xs)"
  by (induction xs) (auto split: if_splits)



lemma findIndex_storeVector:
  fixes f :: "'m TFile" and vs :: "('m, 'e) NoteVector list"
  defines "p \<equiv> \<lambda>v::('m, 'e) NoteVector. path v = file_path f"
  shows "\<exists>i. findIndex p (storeVector (findIndex p vs) f e vs) = Some i
            \<and> i < length (storeVector (findIndex p vs) f e vs)
            \<and> storeVector (findIndex p vs) f e vs ! i =
                \<lparr>path = file_path f, embedding = e, mtime = stat_mtime f\<rparr>"
proof (cases "findIndex p vs")
  case None
  then have "findIndex p (vs @ [\<lparr>path = file_path f, embedding = e, mtime = stat_mtime f\<rparr>])
      = Some (length vs)"
    by (intro findIndex_append_new) (simp_all add: p_def)
  with None show ?thesis
    by (simp add: storeVector_def p_def [symmetric])
next
  case (Some i)
  then have "findIndex p (vs[i := \<lparr>path = file_path f, embedding = e, mtime = stat_mtime f\<rparr>])
      = Some i"
    by (intro findIndex_update) (simp_all add: p_def)
  moreover have "i < length vs" using Some findIndex_Some by fastforce
  ultimately show ?thesis using Some
    by (simp add: storeVector_def)
qed



lemma generateEmbedding_steady:
  "generateEmbedding steady_provider txt title retries tr =
     (Inr [1, 2], tr @ [Request (truncatedText (sanitizeText txt))])"
  by (simp add: generateEmbedding_def attempts.simps [of _ _ _ _ _ 0] requestUrl_def
      steady_provider_def readEmbedding_def Let_def)



section \<open>Indexing an unmodified note again\<close>

text \<open>
  C7. When a call of \<open>indexNote\<close> for a note has returned, the record of the note
  carries the note's modification time, and a second call for the unmodified note
  returns at once: the store, the trace of the provider client and all the rest of
  the state stay as they are. The two calls together have asked for an embedding at
  most once: the trace after them is the trace before them, or the trace left by the
  one \<open>generateEmbedding\<close> call of the first.
\<close>

theorem indexNote_twice:
  assumes "indexNote E prov f st = (Inr (), st1)"
  shows "indexNote E prov f st1 = (Inr (), st1)
       \<and> (network st1 = network st
          \<or> (\<exists>c. content f = Some c
                 \<and> network st1 = snd (generateEmbedding prov (preprocessContent E c)
                                       (Some (basename f)) 3 (network st))))"
proof (cases "case map_option (\<lambda>i. vectors st ! i)
                  (findIndex (\<lambda>v. path v = file_path f) (vectors st)) of
                None \<Rightarrow> False | Some v \<Rightarrow> mtime v = stat_mtime f")
  case True
  with assms have "st1 = st"
    by (simp add: indexNote_def Let_def)
  with assms show ?thesis by simp
next
  case False
  with assms obtain c e tr where c: "content f = Some c"
    and g: "generateEmbedding prov (preprocessContent E c) (Some (basename f)) 3 (network st)
              = (Inr e, tr)"
    and st1: "st1 = st\<lparr>network := tr,
        vectors := storeVector (findIndex (\<lambda>v. path v = file_path f) (vectors st)) f e (vectors st)\<rparr>"
    by (auto simp: indexNote_def Let_def split: option.splits prod.splits sum.splits)
  obtain i where i: "findIndex (\<lambda>v. path v = file_path f) (vectors st1) = Some i"
    "vectors st1 ! i = \<lparr>path = file_path f, embedding = e, mtime = stat_mtime f\<rparr>"
    using findIndex_storeVector [of f "vectors st" e] st1 by auto
  then have "indexNote E prov f st1 = (Inr (), st1)"
    by (simp add: indexNote_def)
  moreover have "network st1 = snd (generateEmbedding prov (preprocessContent E c)
                                       (Some (basename f)) 3 (network st))"
    using g st1 by simp
  ultimately show ?thesis using c by blast
qed

theorem indexNote_twice_witness:
  "indexNote sample_env steady_provider note_a fresh = (Inr (), after_note_a)
   \<and> indexNote sample_env steady_provider note_a after_note_a = (Inr (), after_note_a)
   \<and> network after_note_a = [Request ''alpha'']"
proof -
  have first: "indexNote sample_env steady_provider note_a fresh = (Inr (), after_note_a)"
    by (simp add: indexNote_def generateEmbedding_steady fresh_def note_a_def sample_env_def
        storeVector_def truncatedText_def sanitizeText_def is_control_def Let_def
        after_note_a_def)
  from indexNote_twice [OF first]
  have "indexNote sample_env steady_provider note_a after_note_a = (Inr (), after_note_a)"
    by simp
  with first show ?thesis by (simp add: after_note_a_def)
qed

section \<open>The order of the fallbacks\<close>

lemma context_error_is_context_length: "isContextLength (body_text context_error)"
  by (simp add: isContextLength_def context_error_def)

lemma stripTags_without_tags: "CHR ''<'' \<notin> set s \<Longrightarrow> stripTags s = s"
  by (induction s) auto

lemma collapseWhitespace_without_space:
  "\<forall>c\<in>set s. \<not> is_space c \<Longrightarrow> collapseWhitespace s = s"
  by (induction s) auto

lemma truncatedText_As:
  "truncatedText (sanitizeText (replicate 50000 (CHR ''A''))) = replicate 32000 (CHR ''A'')"
  by (simp add: sanitizeText_def truncatedText_def is_control_def substring0_def)

lemma safeText_As:
  "safeText (sanitizeText (replicate 50000 (CHR ''A''))) = replicate 2000 (CHR ''A'')"
  by (simp add: sanitizeText_def safeText_def is_control_def substring0_def
      stripTags_without_tags collapseWhitespace_without_space trim_def is_space_def)

text \<open>
  C4. When the provider answers the first full-text request with a context-length
  error and the Safe Mode request with an embedding, \<open>generateEmbedding\<close> returns
  that embedding, and the trace shows all it did: the full-text request, then at once
  the Safe Mode request. There is no delay, no second full-text request and no
  Title-Only request, whatever the title and the number of retries are.
\<close>

theorem context_length_goes_straight_to_safe_mode:
  assumes "prov (tr @ [Request (truncatedText (sanitizeText txt))]) = Responds r"
    and "status r \<noteq> 200"
    and "isContextLength (body_text r)"
    and "prov (tr @ [Request (truncatedText (sanitizeText txt)),
                     Request (safeText (sanitizeText txt))]) = Responds r'"
    and "status r' = 200"
    and "json r' = Json (Array e)"
  shows "generateEmbedding prov txt title retries tr =
           (Inr e, tr @ [Request (truncatedText (sanitizeText txt)),
                         Request (safeText (sanitizeText txt))])"
  using assms
  by (simp add: generateEmbedding_def attempts.simps [of _ _ _ _ _ 0] requestUrl_def
      fallbackChain_def safeMode_def fallbackRequest_def Let_def)

theorem context_length_goes_straight_to_safe_mode_witness:
  "generateEmbedding short_context_provider (replicate 50000 (CHR ''A'')) (Some ''T'') 3 [] =
     (Inr [1, 2, 3], [Request (replicate 32000 (CHR ''A'')), Request (replicate 2000 (CHR ''A''))])"
  using context_length_goes_straight_to_safe_mode [of short_context_provider "[]"
      "replicate 50000 (CHR ''A'')" context_error
      "\<lparr>status = 200, body_text = [], json = Json (Array [1, 2, 3])\<rparr>"
      "[1, 2, 3]" "Some ''T''" 3]
  by (simp add: short_context_provider_def context_error_is_context_length truncatedText_As
      safeText_As)
    (simp add: context_error_def)

section \<open>Malformed responses\<close>











section \<open>The similarity of a zero vector\<close>

lemma zn_mul_left: "rnd 0 = Num 0 \<Longrightarrow> zero_or_nan x \<Longrightarrow> zero_or_nan (num_mul rnd x y)"
  by (cases y) (auto simp: zero_or_nan_def signed_inf_def)

lemma zn_mul_right: "rnd 0 = Num 0 \<Longrightarrow> zero_or_nan y \<Longrightarrow> zero_or_nan (num_mul rnd x y)"
  by (cases x) (auto simp: zero_or_nan_def signed_inf_def)

lemma zn_add: "rnd 0 = Num 0 \<Longrightarrow> zero_or_nan x \<Longrightarrow> zero_or_nan y \<Longrightarrow> zero_or_nan (num_add rnd x y)"
  by (auto simp: zero_or_nan_def)

lemma zn_sqrt: "rnd 0 = Num 0 \<Longrightarrow> zero_or_nan x \<Longrightarrow> zero_or_nan (num_sqrt rnd x)"
  by (auto simp: zero_or_nan_def)

lemma zn_div: "zero_or_nan x \<Longrightarrow> zero_or_nan y \<Longrightarrow> num_div rnd x y = NaN"
  by (auto simp: zero_or_nan_def signed_inf_def)

lemma zn_elem: "\<forall>x\<in>set a. x = Num 0 \<Longrightarrow> zero_or_nan (elem a i)"
  by (simp add: elem_def zero_or_nan_def)



lemma sums_zero_a:
  assumes r: "rnd 0 = Num 0" and a: "\<forall>i. zero_or_nan (elem a i)"
  shows "zero_or_nan d \<Longrightarrow> zero_or_nan na \<Longrightarrow>
    zero_or_nan (fst (fold (\<lambda>i (dotProduct, normA, normB).
                    (num_add rnd dotProduct (num_mul rnd (elem a i) (elem b i)),
                     num_add rnd normA (num_mul rnd (elem a i) (elem a i)),
                     num_add rnd normB (num_mul rnd (elem b i) (elem b i)))) js (d, na, nb)))
    \<and> zero_or_nan (fst (snd (fold (\<lambda>i (dotProduct, normA, normB).
                    (num_add rnd dotProduct (num_mul rnd (elem a i) (elem b i)),
                     num_add rnd normA (num_mul rnd (elem a i) (elem a i)),
                     num_add rnd normB (num_mul rnd (elem b i) (elem b i)))) js (d, na, nb))))"
proof (induction js arbitrary: d na nb)
  case Nil
  then show ?case by simp
next
  case (Cons j js)
  have d': "zero_or_nan (num_add rnd d (num_mul rnd (elem a j) (elem b j)))"
    using Cons.prems(1) a r by (intro zn_add zn_mul_left) auto
  have na': "zero_or_nan (num_add rnd na (num_mul rnd (elem a j) (elem a j)))"
    using Cons.prems(2) a r by (intro zn_add zn_mul_left) auto
  from Cons.IH [OF d' na'] show ?case by simp
qed


lemma sums_zero_b:
  assumes r: "rnd 0 = Num 0" and b: "\<forall>i. zero_or_nan (elem b i)"
  shows "zero_or_nan d \<Longrightarrow> zero_or_nan nb \<Longrightarrow>
    zero_or_nan (fst (fold (\<lambda>i (dotProduct, normA, normB).
                    (num_add rnd dotProduct (num_mul rnd (elem a i) (elem b i)),
                     num_add rnd normA (num_mul rnd (elem a i) (elem a i)),
                     num_add rnd normB (num_mul rnd (elem b i) (elem b i)))) js (d, na, nb)))
    \<and> zero_or_nan (snd (snd (fold (\<lambda>i (dotProduct, normA, normB).
                    (num_add rnd dotProduct (num_mul rnd (elem a i) (elem b i)),
                     num_add rnd normA (num_mul rnd (elem a i) (elem a i)),
                     num_add rnd normB (num_mul rnd (elem b i) (elem b i)))) js (d, na, nb))))"
proof (induction js arbitrary: d na nb)
  case Nil
  then show ?case by simp
next
  case (Cons j js)
  have d': "zero_or_nan (num_add rnd d (num_mul rnd (elem a j) (elem b j)))"
    using Cons.prems(1) b r by (intro zn_add zn_mul_right) auto
  have nb': "zero_or_nan (num_add rnd nb (num_mul rnd (elem b j) (elem b j)))"
    using Cons.prems(2) b r by (intro zn_add zn_mul_right) auto
  from Cons.IH [OF d' nb'] show ?case by simp
qed

text \<open>
  C10. When every component of one of the two vectors is zero, \<open>cosineSimilarity\<close>
  returns NaN: the division is not guarded, and zero divided by zero is NaN. This
  holds for every rounding that leaves zero as it is, and whatever the other vector
  holds (also when the lengths differ, and for two empty vectors).
\<close>

theorem cosine_of_zero_vector_is_nan:
  assumes "rnd 0 = Num 0"
    and "(\<forall>x\<in>set a. x = Num 0) \<or> (\<forall>x\<in>set b. x = Num 0)"
  shows "cosineSimilarity rnd a b = NaN"
proof -
  obtain d na nb where sums: "fold (\<lambda>i (dotProduct, normA, normB).
                    (num_add rnd dotProduct (num_mul rnd (elem a i) (elem b i)),
                     num_add rnd normA (num_mul rnd (elem a i) (elem a i)),
                     num_add rnd normB (num_mul rnd (elem b i) (elem b i))))
              [0..<length a] (Num 0, Num 0, Num 0) = (d, na, nb)"
    using prod_cases3 by blast
  have z: "zero_or_nan (Num 0)" by (simp add: zero_or_nan_def)
  from assms(2) have "zero_or_nan d \<and> (zero_or_nan na \<or> zero_or_nan nb)"
  proof
    assume "\<forall>x\<in>set a. x = Num 0"
    then have "\<forall>i. zero_or_nan (elem a i)" by (simp add: zn_elem)
    with sums_zero_a [where rnd = rnd and a = a and b = b and js = "[0..<length a]"
        and d = "Num 0" and na = "Num 0" and nb = "Num 0"] assms(1) z
    show ?thesis unfolding sums by simp
  next
    assume "\<forall>x\<in>set b. x = Num 0"
    then have "\<forall>i. zero_or_nan (elem b i)" by (simp add: zn_elem)
    with sums_zero_b [where rnd = rnd and a = a and b = b and js = "[0..<length a]"
        and d = "Num 0" and na = "Num 0" and nb = "Num 0"] assms(1) z
    show ?thesis unfolding sums by simp
  qed
  then have "zero_or_nan d" and
    "zero_or_nan (num_mul rnd (num_sqrt rnd na) (num_sqrt rnd nb))"
    using assms(1) zn_sqrt [of rnd na] zn_sqrt [of rnd nb]
      zn_mul_left [of rnd "num_sqrt rnd na" "num_sqrt rnd nb"]
      zn_mul_right [of rnd "num_sqrt rnd nb" "num_sqrt rnd na"]
    by blast+
  then have "num_div rnd d (num_mul rnd (num_sqrt rnd na) (num_sqrt rnd nb)) = NaN"
    by (rule zn_div)
  then show ?thesis unfolding cosineSimilarity_def sums by simp
qed



theorem cosine_of_zero_vector_is_nan_witness:
  "exact 0 = Num 0
   \<and> cosineSimilarity exact [Num 0, Num 0] [Num 3, Num 4] = NaN
   \<and> cosineSimilarity exact [Num 3, Num 4] [Num 0, Num 0] = NaN"
  using cosine_of_zero_vector_is_nan [of exact "[Num 0, Num 0]" "[Num 3, Num 4]"]
    cosine_of_zero_vector_is_nan [of exact "[Num 3, Num 4]" "[Num 0, Num 0]"]
  by (simp add: exact_def)

section \<open>The ranking\<close>

lemma num_ge_refl: "x \<noteq> NaN \<Longrightarrow> num_ge x x"
  by (cases x) auto

lemma num_ge_total: "x \<noteq> NaN \<Longrightarrow> y \<noteq> NaN \<Longrightarrow> num_ge x y \<or> num_ge y x"
  by (cases x; cases y) auto

lemma num_ge_trans: "num_ge x y \<Longrightarrow> num_ge y z \<Longrightarrow> num_ge x z"
  by (cases x; cases y; cases z) auto

lemma agrees_not_nan:
  assumes "agrees rnd xs" and "s \<in> set xs"
  shows "snd s \<noteq> NaN"
proof
  assume nan: "snd s = NaN"
  from assms have "num_pos (byScore rnd s s) = (\<not> num_ge (snd s) (snd s))"
    by (simp add: agrees_def)
  with nan show False
    by (simp add: byScore_def num_sub_def)
qed

lemma set_insert_by: "set (insert_by cmp x ys) = insert x (set ys)"
  by (induction ys) auto

lemma mset_insert_by: "mset (insert_by cmp x ys) = add_mset x (mset ys)"
  by (induction ys) auto

lemma mset_js_sort: "mset (js_sort cmp xs) = mset xs"
  by (induction xs) (simp_all add: js_sort_def mset_insert_by)

lemma set_js_sort: "set (js_sort cmp xs) = set xs"
  by (metis mset_js_sort set_mset_mset)

lemma descending_insert:
  assumes "agrees rnd xs" and "x \<in> set xs" and "set ys \<subseteq> set xs" and "descending ys"
  shows "descending (insert_by (byScore rnd) x ys)"
  using assms(3,4)
proof (induction ys)
  case Nil
  then show ?case by (simp add: descending_def)
next
  case (Cons y ys)
  have nn: "snd x \<noteq> NaN" "snd y \<noteq> NaN"
    using assms(1,2) Cons.prems(1) agrees_not_nan by auto
  show ?case
  proof (cases "num_pos (byScore rnd x y)")
    case True
    then have "\<not> num_ge (snd x) (snd y)"
      using assms(1,2) Cons.prems(1) by (auto simp: agrees_def)
    then have yx: "num_ge (snd y) (snd x)"
      using num_ge_total nn by blast
    have "descending (insert_by (byScore rnd) x ys)"
      using Cons by (simp add: descending_def)
    with yx Cons.prems(2) True show ?thesis
      by (auto simp: descending_def set_insert_by)
  next
    case False
    then have xy: "num_ge (snd x) (snd y)"
      using assms(1,2) Cons.prems(1) by (auto simp: agrees_def)
    then have "\<forall>z\<in>set ys. num_ge (snd x) (snd z)"
      using Cons.prems(2) num_ge_trans by (fastforce simp: descending_def)
    with xy Cons.prems(2) False show ?thesis
      by (simp add: descending_def)
  qed
qed

lemma descending_js_sort:
  assumes "agrees rnd xs" and "set zs \<subseteq> set xs"
  shows "descending (js_sort (byScore rnd) zs)"
  using assms(2)
proof (induction zs)
  case Nil
  then show ?case by (simp add: js_sort_def descending_def)
next
  case (Cons z zs)
  then have "descending (js_sort (byScore rnd) zs)" by simp
  moreover have "set (js_sort (byScore rnd) zs) \<subseteq> set xs"
    using Cons.prems by (simp add: set_js_sort)
  ultimately have "descending (insert_by (byScore rnd) z (js_sort (byScore rnd) zs))"
    using descending_insert [OF assms(1)] Cons.prems by simp
  then show ?case by (simp add: js_sort_def)
qed

lemma stable_insert:
  assumes "agrees rnd xs" and "x \<in> set xs" and "set ys \<subseteq> set xs"
  shows "filter (\<lambda>s. snd s = v) (insert_by (byScore rnd) x ys) = filter (\<lambda>s. snd s = v) (x # ys)"
  using assms(3)
proof (induction ys)
  case Nil
  then show ?case by simp
next
  case (Cons y ys)
  have "num_pos (byScore rnd x y) \<Longrightarrow> snd x \<noteq> snd y"
  proof
    assume p: "num_pos (byScore rnd x y)" and e: "snd x = snd y"
    from p have "\<not> num_ge (snd x) (snd y)"
      using assms(1,2) Cons.prems by (auto simp: agrees_def)
    moreover have "snd x \<noteq> NaN" using assms(1,2) agrees_not_nan by auto
    ultimately show False using e num_ge_refl by metis
  qed
  with Cons show ?case by auto
qed

lemma stable_js_sort:
  assumes "agrees rnd xs" and "set zs \<subseteq> set xs"
  shows "filter (\<lambda>s. snd s = v) (js_sort (byScore rnd) zs) = filter (\<lambda>s. snd s = v) zs"
  using assms(2)
proof (induction zs)
  case Nil
  then show ?case by (simp add: js_sort_def)
next
  case (Cons z zs)
  have "set (js_sort (byScore rnd) zs) \<subseteq> set xs"
    using Cons.prems by (simp add: set_js_sort)
  then have "filter (\<lambda>s. snd s = v) (insert_by (byScore rnd) z (js_sort (byScore rnd) zs))
      = filter (\<lambda>s. snd s = v) (z # js_sort (byScore rnd) zs)"
    using stable_insert [OF assms(1)] Cons.prems by simp
  with Cons show ?case by (simp add: js_sort_def)
qed

lemma descending_take: "descending xs \<Longrightarrow> descending (take n xs)"
  by (simp add: descending_def sorted_wrt_take)

lemma descending_resolve:
  "descending xs \<Longrightarrow> descending (resolveFiles vault xs)"
  by (induction xs) (auto simp: descending_def resolveFiles_def map_filter_simps split: option.splits
      simp: List.map_filter_def)


lemma cosine_unit_same: "cosineSimilarity exact [Num 1, Num 0] [Num 1, Num 0] = Num 1"
  by (simp add: cosineSimilarity_def exact_def elem_def)

lemma cosine_unit_orthogonal: "cosineSimilarity exact [Num 1, Num 0] [Num 0, Num 1] = Num 0"
  by (simp add: cosineSimilarity_def exact_def elem_def)

lemma cosine_unit_opposite: "cosineSimilarity exact [Num 1, Num 0] [Num (- 1), Num 0] = Num (- 1)"
  by (simp add: cosineSimilarity_def exact_def elem_def)

lemma scoreAll_ranked_store:
  "scoreAll exact [Num 1, Num 0] ranked_store =
     [(''a.md'', Num 1), (''b.md'', Num 0), (''c.md'', Num 1), (''d.md'', Num (- 1))]"
  by (simp add: scoreAll_def ranked_store_def cosine_unit_same cosine_unit_orthogonal
      cosine_unit_opposite)

text \<open>
  C5 (as the code has it). When the comparison function agrees with the order of the
  scores on the scored candidates (no score is NaN), then for every \<open>k \<ge> 0\<close> the
  ranking is the first \<open>k\<close> elements of the sorted scores, and the sorted scores are a
  permutation of the scores in descending order in which the elements of equal score
  keep the order of the candidates. So the ranking is in descending order, with ties in
  the order of the candidates, also after the paths without a file are dropped; it is
  determined by query, candidates and \<open>k\<close>; and \<open>k = 0\<close> gives the empty list.
\<close>

theorem ranking_descending_and_stable:
  assumes "agrees rnd (scoreAll rnd query candidates)" and "0 \<le> k"
  shows "topScores rnd query candidates k
           = take (nat k) (js_sort (byScore rnd) (scoreAll rnd query candidates))
       \<and> mset (js_sort (byScore rnd) (scoreAll rnd query candidates))
           = mset (scoreAll rnd query candidates)
       \<and> descending (js_sort (byScore rnd) (scoreAll rnd query candidates))
       \<and> (\<forall>v. filter (\<lambda>s. snd s = v) (js_sort (byScore rnd) (scoreAll rnd query candidates))
              = filter (\<lambda>s. snd s = v) (scoreAll rnd query candidates))
       \<and> descending (topScores rnd query candidates k)
       \<and> descending (resolveFiles vault (topScores rnd query candidates k))
       \<and> topScores rnd query candidates 0 = []"
proof -
  have top: "topScores rnd query candidates k
           = take (nat k) (js_sort (byScore rnd) (scoreAll rnd query candidates))"
    using assms(2) by (simp add: topScores_def slice0_def)
  have sorted: "descending (js_sort (byScore rnd) (scoreAll rnd query candidates))"
    using descending_js_sort [OF assms(1)] by simp
  have stable: "\<forall>v. filter (\<lambda>s. snd s = v) (js_sort (byScore rnd) (scoreAll rnd query candidates))
              = filter (\<lambda>s. snd s = v) (scoreAll rnd query candidates)"
    using stable_js_sort [OF assms(1)] by simp
  have cut: "descending (topScores rnd query candidates k)"
    using sorted top descending_take by metis
  then have "descending (resolveFiles vault (topScores rnd query candidates k))"
    by (rule descending_resolve)
  moreover have "topScores rnd query candidates 0 = []"
    by (simp add: topScores_def slice0_def)
  ultimately show ?thesis
    using top sorted stable cut mset_js_sort by blast
qed

theorem ranking_descending_and_stable_witness:
  "agrees exact (scoreAll exact [Num 1, Num 0] ranked_store)
   \<and> topScores exact [Num 1, Num 0] ranked_store 3
       = [(''a.md'', Num 1), (''c.md'', Num 1), (''b.md'', Num 0)]
   \<and> descending (topScores exact [Num 1, Num 0] ranked_store 3)"
proof -
  have h: "agrees exact (scoreAll exact [Num 1, Num 0] ranked_store)"
    by (simp add: scoreAll_ranked_store agrees_def byScore_def num_sub_def exact_def)
  have run: "topScores exact [Num 1, Num 0] ranked_store 3
       = [(''a.md'', Num 1), (''c.md'', Num 1), (''b.md'', Num 0)]"
    by (simp add: topScores_def scoreAll_ranked_store js_sort_def byScore_def num_sub_def
        exact_def slice0_def)
  have k: "0 \<le> (3 :: int)"
    by simp
  from ranking_descending_and_stable [OF h k, where vault = "\<lambda>p. (None :: nat TFile option)"]
  have "descending (topScores exact [Num 1, Num 0] ranked_store 3)"
    by blast
  with h run show ?thesis by simp
qed

text \<open>
  C5 as stated fails when a score is NaN: with a zero embedding between an embedding
  opposite to the query and one equal to it, the ranking comes out in the order of the
  candidates, the lowest score first.
\<close>

theorem ranking_with_nan_score_counterexample:
  "topScores exact [Num 1] zero_store 3
     = [(''n.md'', Num (- 1)), (''z.md'', NaN), (''p.md'', Num 1)]
   \<and> \<not> descending (topScores exact [Num 1] zero_store 3)"
proof -
  have scores: "scoreAll exact [Num 1] zero_store
      = [(''n.md'', Num (- 1)), (''z.md'', NaN), (''p.md'', Num 1)]"
    by (simp add: scoreAll_def zero_store_def cosineSimilarity_def exact_def elem_def
        signed_inf_def)
  have run: "topScores exact [Num 1] zero_store 3
     = [(''n.md'', Num (- 1)), (''z.md'', NaN), (''p.md'', Num 1)]"
    by (simp add: topScores_def scores js_sort_def byScore_def num_sub_def exact_def slice0_def)
  then show ?thesis by (simp add: descending_def)
qed

section \<open>Saving and loading in the binary format\<close>

lemma length_setUint32 [simp]: "length (setUint32 n) = 4"
  by (simp add: setUint32_def)

lemma split_low_byte: "n mod (256 * q) = n mod 256 + 256 * (n div 256 mod q)" for n q :: nat
  by (simp add: mod_mult2_eq)

lemma uint32_value:
  "n mod 256 + 256 * (n div 256 mod 256) + 65536 * (n div 65536 mod 256)
     + 16777216 * (n div 16777216 mod 256) = n mod 4294967296" for n :: nat
proof -
  have d: "n div 256 div 256 = n div 65536" "n div 65536 div 256 = n div 16777216"
    by (simp_all add: div_mult2_eq [symmetric])
  have a: "n mod 4294967296 = n mod 256 + 256 * (n div 256 mod 16777216)"
    using split_low_byte [of n 16777216] by simp
  have b: "n div 256 mod 16777216 = n div 256 mod 256 + 256 * (n div 65536 mod 65536)"
    using split_low_byte [of "n div 256" 65536] by (simp add: d)
  have c: "n div 65536 mod 65536 = n div 65536 mod 256 + 256 * (n div 16777216 mod 256)"
    using split_low_byte [of "n div 65536" 256] by (simp add: d)
  show ?thesis
    by (simp add: a b c)
qed

lemma getUint32_setUint32:
  "getUint32 (pre @ setUint32 n @ post) (length pre) = Inr (n mod 4294967296)"
  by (simp add: getUint32_def setUint32_def nth_append unat_of_nat uint32_value)

lemma getUint32_at:
  assumes "buffer = pre @ setUint32 n @ post" and "offset = length pre" and "n < 4294967296"
  shows "getUint32 buffer offset = Inr n"
  using assms getUint32_setUint32 [of pre n post] by simp

lemma bytesAt_at:
  assumes "buffer = pre @ bs @ post" and "offset = length pre" and "len = length bs"
  shows "bytesAt buffer offset len = Inr bs"
  using assms by (simp add: bytesAt_def)

lemma embeddingBytes_full:
  "embeddingBytes E (length e) e = concat (map (setFloat32 E) e)"
proof -
  have "map (\<lambda>i. if i < length e then setFloat32 E (e ! i) else nan32) [0..<length e]
      = map (setFloat32 E) e"
    by (intro nth_equalityI) auto
  then show ?thesis by (simp add: embeddingBytes_def)
qed

lemma length_floats:
  "\<forall>x\<in>set xs. length (setFloat32 E x) = 4 \<Longrightarrow> length (concat (map (setFloat32 E) xs)) = 4 * length xs"
  by (induction xs) auto

lemma readEmbeddingAt_floats:
  assumes "\<forall>x\<in>set xs. length (setFloat32 E x) = 4 \<and> getFloat32 E (setFloat32 E x) = x"
  shows "readEmbeddingAt E (pre @ concat (map (setFloat32 E) xs) @ post) (length pre) (length xs)
           = Inr (xs, length pre + 4 * length xs)"
  using assms
proof (induction xs arbitrary: pre)
  case Nil
  then show ?case by simp
next
  case (Cons x xs)
  let ?buffer = "pre @ concat (map (setFloat32 E) (x # xs)) @ post"
  have x: "length (setFloat32 E x) = 4" "getFloat32 E (setFloat32 E x) = x"
    using Cons.prems by auto
  have first: "bytesAt ?buffer (length pre) 4 = Inr (setFloat32 E x)"
    by (rule bytesAt_at [where pre = pre and post = "concat (map (setFloat32 E) xs) @ post"])
       (simp_all add: x)
  have "readEmbeddingAt E ((pre @ setFloat32 E x) @ concat (map (setFloat32 E) xs) @ post)
          (length (pre @ setFloat32 E x)) (length xs)
        = Inr (xs, length (pre @ setFloat32 E x) + 4 * length xs)"
    using Cons.prems by (intro Cons.IH) simp
  then have rest: "readEmbeddingAt E ?buffer (length pre + 4) (length xs)
        = Inr (xs, length pre + 4 + 4 * length xs)"
    by (simp add: x)
  show ?case using first rest x by simp
qed

lemma readEmbeddingAt_at:
  assumes "buffer = pre @ embeddingBytes E (length e) e @ post" and "offset = length pre"
    and "\<forall>x\<in>set e. length (setFloat32 E x) = 4 \<and> getFloat32 E (setFloat32 E x) = x"
  shows "readEmbeddingAt E buffer offset (length e) = Inr (e, offset + 4 * length e)"
  using assms readEmbeddingAt_floats [of e E pre post] by (simp add: embeddingBytes_full)

lemma length_embeddingBytes:
  "\<forall>x\<in>set e. length (setFloat32 E x) = 4 \<Longrightarrow> length (embeddingBytes E (length e) e) = 4 * length e"
  by (simp add: embeddingBytes_full length_floats)

lemma vectorBytes_parts:
  "vectorBytes E dm v = setUint32 (length (encode E (path v))) @ encode E (path v)
      @ setFloat64 E (mtime v) @ embeddingBytes E dm (embedding v)"
  by (simp add: vectorBytes_def Let_def)

lemma length_vectorBytes:
  assumes "storable E v" and "length (embedding v) = dm"
  shows "length (vectorBytes E dm v) = 4 + length (encode E (path v)) + 8 + 4 * dm"
proof -
  have "\<forall>x\<in>set (embedding v). length (setFloat32 E x) = 4"
    using assms(1) by (simp add: storable_def)
  then have "length (embeddingBytes E dm (embedding v)) = 4 * dm"
    using length_embeddingBytes [of "embedding v" E] assms(2) by simp
  then show ?thesis
    using assms(1) by (simp add: vectorBytes_parts storable_def)
qed

text \<open>Reading one record that is whole in the buffer.\<close>

lemma readVectors_step:
  assumes v: "storable E v" "length (embedding v) = dm"
  shows "readVectors E (pre @ vectorBytes E dm v @ post) (length pre) (Suc k) dm acc
       = readVectors E (pre @ vectorBytes E dm v @ post)
           (length pre + length (vectorBytes E dm v)) k dm (acc @ [v])"
proof -
  define pathBytes where "pathBytes = encode E (path v)"
  define m8 where "m8 = setFloat64 E (mtime v)"
  define eb where "eb = embeddingBytes E (length (embedding v)) (embedding v)"
  define buffer where "buffer = pre @ vectorBytes E dm v @ post"
  from v have len: "length pathBytes < 4294967296" "length m8 = 8"
    and again: "decode E pathBytes = path v" "getFloat64 E m8 = mtime v"
    and comps: "\<forall>x\<in>set (embedding v). length (setFloat32 E x) = 4 \<and> getFloat32 E (setFloat32 E x) = x"
    by (simp_all add: storable_def pathBytes_def m8_def)
  have buffer: "buffer = pre @ setUint32 (length pathBytes) @ pathBytes @ m8 @ eb @ post"
    by (simp add: buffer_def vectorBytes_parts pathBytes_def m8_def eb_def v)
  have a: "getUint32 buffer (length pre) = Inr (length pathBytes)"
    by (rule getUint32_at [where pre = pre and post = "pathBytes @ m8 @ eb @ post"])
       (rule buffer, simp_all add: len)
  have b: "bytesAt buffer (length pre + 4) (length pathBytes) = Inr pathBytes"
    by (rule bytesAt_at [where pre = "pre @ setUint32 (length pathBytes)"
          and post = "m8 @ eb @ post"])
       (simp_all add: buffer)
  have c: "bytesAt buffer (length pre + 4 + length pathBytes) 8 = Inr m8"
    by (rule bytesAt_at [where pre = "pre @ setUint32 (length pathBytes) @ pathBytes"
          and post = "eb @ post"])
       (simp_all add: buffer len)
  have d: "readEmbeddingAt E buffer (length pre + 4 + length pathBytes + 8) (length (embedding v))
      = Inr (embedding v, length pre + 4 + length pathBytes + 8 + 4 * length (embedding v))"
    by (rule readEmbeddingAt_at [where pre = "pre @ setUint32 (length pathBytes) @ pathBytes @ m8"
          and post = post])
       (simp_all add: buffer len comps eb_def)
  have e: "length (vectorBytes E dm v) = 4 + length pathBytes + 8 + 4 * length (embedding v)"
    using length_vectorBytes [OF v] by (simp add: pathBytes_def v)
  have rec: "\<lparr>path = decode E pathBytes, embedding = embedding v, mtime = getFloat64 E m8\<rparr> = v"
    by (simp add: again)
  have "readVectors E buffer (length pre) (Suc k) dm acc
       = readVectors E buffer (length pre + length (vectorBytes E dm v)) k dm (acc @ [v])"
    using a b c d e rec v(2) by (simp add: add.assoc)
  then show ?thesis by (simp add: buffer_def)
qed

lemma readVectors_records:
  assumes "\<forall>v\<in>set vs. storable E v \<and> length (embedding v) = dm"
  shows "readVectors E (pre @ concat (map (vectorBytes E dm) vs) @ post) (length pre) (length vs) dm acc
           = Inr (acc @ vs)"
  using assms
proof (induction vs arbitrary: pre acc)
  case Nil
  then show ?case by simp
next
  case (Cons v vs)
  have v: "storable E v" "length (embedding v) = dm"
    using Cons.prems by auto
  have "readVectors E ((pre @ vectorBytes E dm v) @ concat (map (vectorBytes E dm) vs) @ post)
          (length (pre @ vectorBytes E dm v)) (length vs) dm (acc @ [v]) = Inr ((acc @ [v]) @ vs)"
    using Cons.prems by (intro Cons.IH) simp
  with readVectors_step [OF v, of pre "concat (map (vectorBytes E dm) vs) @ post" "length vs" acc]
  show ?case by simp
qed

text \<open>Reading from a buffer that ends inside an embedding, a record, the records.\<close>

lemma readEmbeddingAt_cut:
  assumes "\<forall>x\<in>set xs. length (setFloat32 E x) = 4" and "m < 4 * length xs"
  shows "readEmbeddingAt E (pre @ take m (concat (map (setFloat32 E) xs))) (length pre) (length xs)
           = Inl Range_error"
  using assms
proof (induction xs arbitrary: pre m)
  case Nil
  then show ?case by simp
next
  case (Cons x xs)
  have x: "length (setFloat32 E x) = 4"
    using Cons.prems by simp
  show ?case
  proof (cases "m < 4")
    case True
    then show ?thesis by (simp add: bytesAt_def x)
  next
    case False
    have first: "bytesAt (pre @ take m (concat (map (setFloat32 E) (x # xs)))) (length pre) 4
        = Inr (setFloat32 E x)"
      by (rule bytesAt_at [where pre = pre
            and post = "take (m - 4) (concat (map (setFloat32 E) xs))"])
         (use False in \<open>simp_all add: x\<close>)
    have "readEmbeddingAt E ((pre @ setFloat32 E x) @ take (m - 4) (concat (map (setFloat32 E) xs)))
            (length (pre @ setFloat32 E x)) (length xs) = Inl Range_error"
      using Cons.prems False by (intro Cons.IH) auto
    then have "readEmbeddingAt E (pre @ take m (concat (map (setFloat32 E) (x # xs))))
            (length pre + 4) (length xs) = Inl Range_error"
      using False by (simp add: x)
    with first show ?thesis by simp
  qed
qed

lemma readVectors_cut:
  assumes v: "storable E v" "length (embedding v) = dm"
    and n: "n < length (vectorBytes E dm v)"
  shows "readVectors E (pre @ take n (vectorBytes E dm v)) (length pre) (Suc k) dm acc
           = Inl Range_error"
proof -
  define pathBytes where "pathBytes = encode E (path v)"
  define m8 where "m8 = setFloat64 E (mtime v)"
  define eb where "eb = embeddingBytes E (length (embedding v)) (embedding v)"
  define buffer where "buffer = pre @ take n (vectorBytes E dm v)"
  from v have len: "length pathBytes < 4294967296" "length m8 = 8"
    and comps: "\<forall>x\<in>set (embedding v). length (setFloat32 E x) = 4"
    by (simp_all add: storable_def pathBytes_def m8_def)
  have parts: "vectorBytes E dm v = setUint32 (length pathBytes) @ pathBytes @ m8 @ eb"
    by (simp add: vectorBytes_parts pathBytes_def m8_def eb_def v)
  have size: "length buffer = length pre + n"
    using n by (simp add: buffer_def)
  have eb: "length eb = 4 * dm"
    using length_embeddingBytes [OF comps] by (simp add: eb_def v)
  have total: "n < 4 + length pathBytes + 8 + 4 * dm"
    using n by (simp add: parts len eb)
  consider (a) "n < 4" | (b) "4 \<le> n" "n < 4 + length pathBytes"
    | (c) "4 + length pathBytes \<le> n" "n < 4 + length pathBytes + 8"
    | (d) "4 + length pathBytes + 8 \<le> n"
    by linarith
  then have "readVectors E buffer (length pre) (Suc k) dm acc = Inl Range_error"
  proof cases
    case a
    then show ?thesis by (simp add: getUint32_def size)
  next
    case b
    have "getUint32 buffer (length pre) = Inr (length pathBytes)"
      by (rule getUint32_at [where pre = pre and post = "take (n - 4) (pathBytes @ m8 @ eb)"])
         (use b in \<open>simp_all add: buffer_def parts len\<close>)
    moreover have "bytesAt buffer (length pre + 4) (length pathBytes) = Inl Range_error"
      using b by (simp add: bytesAt_def size)
    ultimately show ?thesis by simp
  next
    case c
    have "getUint32 buffer (length pre) = Inr (length pathBytes)"
      by (rule getUint32_at [where pre = pre
            and post = "pathBytes @ take (n - 4 - length pathBytes) (m8 @ eb)"])
         (use c in \<open>simp_all add: buffer_def parts len\<close>)
    moreover have "bytesAt buffer (length pre + 4) (length pathBytes) = Inr pathBytes"
      by (rule bytesAt_at [where pre = "pre @ setUint32 (length pathBytes)"
            and post = "take (n - 4 - length pathBytes) (m8 @ eb)"])
         (use c in \<open>simp_all add: buffer_def parts\<close>)
    moreover have "bytesAt buffer (length pre + 4 + length pathBytes) 8 = Inl Range_error"
      using c by (simp add: bytesAt_def size)
    ultimately show ?thesis by simp
  next
    case d
    define m where "m = n - 4 - length pathBytes - 8"
    have m: "m < 4 * length (embedding v)"
      using d total by (simp add: m_def v)
    have cut: "buffer = pre @ setUint32 (length pathBytes) @ pathBytes @ m8 @ take m eb"
      using d by (simp add: buffer_def parts len m_def)
    have "getUint32 buffer (length pre) = Inr (length pathBytes)"
      by (rule getUint32_at [where pre = pre and post = "pathBytes @ m8 @ take m eb"])
         (simp_all add: cut len)
    moreover have "bytesAt buffer (length pre + 4) (length pathBytes) = Inr pathBytes"
      by (rule bytesAt_at [where pre = "pre @ setUint32 (length pathBytes)"
            and post = "m8 @ take m eb"])
         (simp_all add: cut)
    moreover have "bytesAt buffer (length pre + 4 + length pathBytes) 8 = Inr m8"
      by (rule bytesAt_at [where pre = "pre @ setUint32 (length pathBytes) @ pathBytes"
            and post = "take m eb"])
         (simp_all add: cut len)
    moreover have "readEmbeddingAt E buffer (length pre + 4 + length pathBytes + 8) dm
        = Inl Range_error"
    proof -
    have "readEmbeddingAt E
        ((pre @ setUint32 (length pathBytes) @ pathBytes @ m8)
           @ take m (concat (map (setFloat32 E) (embedding v))))
        (length (pre @ setUint32 (length pathBytes) @ pathBytes @ m8)) (length (embedding v))
        = Inl Range_error"
      using comps m by (rule readEmbeddingAt_cut)
    moreover have "eb = concat (map (setFloat32 E) (embedding v))"
      by (simp add: eb_def embeddingBytes_full)
    ultimately show "readEmbeddingAt E buffer (length pre + 4 + length pathBytes + 8) dm
        = Inl Range_error"
      by (simp add: cut len v(2) add.assoc)
    qed
    ultimately show ?thesis by simp
  qed
  then show ?thesis by (simp add: buffer_def)
qed

lemma readVectors_truncated:
  assumes "\<forall>v\<in>set vs. storable E v \<and> length (embedding v) = dm"
    and "n < length (concat (map (vectorBytes E dm) vs))"
  shows "readVectors E (pre @ take n (concat (map (vectorBytes E dm) vs))) (length pre) (length vs) dm acc
           = Inl Range_error"
  using assms
proof (induction vs arbitrary: pre n acc)
  case Nil
  then show ?case by simp
next
  case (Cons v vs)
  have v: "storable E v" "length (embedding v) = dm"
    using Cons.prems by auto
  show ?case
  proof (cases "n < length (vectorBytes E dm v)")
    case True
    then show ?thesis
      using readVectors_cut [OF v True, of pre "length vs" acc] by simp
  next
    case False
    define n' where "n' = n - length (vectorBytes E dm v)"
    have n': "n' < length (concat (map (vectorBytes E dm) vs))"
      using Cons.prems(2) False by (simp add: n'_def)
    have cut: "pre @ take n (concat (map (vectorBytes E dm) (v # vs)))
        = pre @ vectorBytes E dm v @ take n' (concat (map (vectorBytes E dm) vs))"
      using False by (simp add: n'_def)
    have "readVectors E ((pre @ vectorBytes E dm v) @ take n' (concat (map (vectorBytes E dm) vs)))
            (length (pre @ vectorBytes E dm v)) (length vs) dm (acc @ [v]) = Inl Range_error"
      using Cons.prems(1) n' by (intro Cons.IH) simp_all
    then have "readVectors E (pre @ vectorBytes E dm v @ take n' (concat (map (vectorBytes E dm) vs)))
            (length pre + length (vectorBytes E dm v)) (length vs) dm (acc @ [v]) = Inl Range_error"
      by simp
    with readVectors_step [OF v, of pre "take n' (concat (map (vectorBytes E dm) vs))" "length vs" acc]
    have "readVectors E (pre @ vectorBytes E dm v @ take n' (concat (map (vectorBytes E dm) vs)))
            (length pre) (Suc (length vs)) dm acc = Inl Range_error"
      by (simp del: readVectors.simps)
    then show ?thesis
      unfolding cut by (simp del: readVectors.simps)
  qed
qed

lemma parseVectors_bufferOf:
  assumes "consistent E vs"
  shows "parseVectors E (bufferOf E vs) acc = Inr (acc @ vs)"
proof -
  define dm where "dm = length (embedding (hd vs))"
  define body where "body = concat (map (vectorBytes E dm) vs)"
  have buffer: "bufferOf E vs = magic @ setUint32 (length vs) @ setUint32 dm @ body"
    by (simp add: bufferOf_def Let_def dm_def body_def)
  have small: "length vs < 4294967296" "dm < 4294967296"
    and recs: "\<forall>v\<in>set vs. storable E v \<and> length (embedding v) = dm"
    using assms unfolding consistent_def dm_def by blast+
  have m: "length magic = 4" by (simp add: magic_def)
  have a: "bytesAt (bufferOf E vs) 0 4 = Inr magic"
    by (rule bytesAt_at [where pre = "[]" and post = "setUint32 (length vs) @ setUint32 dm @ body"])
       (simp_all add: buffer m)
  have b: "getUint32 (bufferOf E vs) 4 = Inr (length vs)"
    by (rule getUint32_at [where pre = magic and post = "setUint32 dm @ body"])
       (simp_all add: buffer m small)
  have c: "getUint32 (bufferOf E vs) 8 = Inr dm"
    by (rule getUint32_at [where pre = "magic @ setUint32 (length vs)" and post = body])
       (simp_all add: buffer m small)
  have "readVectors E ((magic @ setUint32 (length vs) @ setUint32 dm) @ body @ [])
          (length (magic @ setUint32 (length vs) @ setUint32 dm)) (length vs) dm acc = Inr (acc @ vs)"
    unfolding body_def using recs by (rule readVectors_records)
  then have d: "readVectors E (bufferOf E vs) 12 (length vs) dm acc = Inr (acc @ vs)"
    by (simp add: buffer m)
  show ?thesis
    using a b c d by (simp add: parseVectors_def)
qed

text \<open>Bytes after the last record are not read.\<close>

lemma parseVectors_bufferOf_trailing:
  assumes "consistent E vs"
  shows "parseVectors E (bufferOf E vs @ junk) acc = Inr (acc @ vs)"
proof -
  define dm where "dm = length (embedding (hd vs))"
  define body where "body = concat (map (vectorBytes E dm) vs)"
  define buffer where "buffer = bufferOf E vs @ junk"
  have parts: "buffer = magic @ setUint32 (length vs) @ setUint32 dm @ body @ junk"
    by (simp add: buffer_def bufferOf_def Let_def dm_def body_def)
  have small: "length vs < 4294967296" "dm < 4294967296"
    and recs: "\<forall>v\<in>set vs. storable E v \<and> length (embedding v) = dm"
    using assms unfolding consistent_def dm_def by blast+
  have m: "length magic = 4" by (simp add: magic_def)
  have a: "bytesAt buffer 0 4 = Inr magic"
    by (rule bytesAt_at [where pre = "[]"
          and post = "setUint32 (length vs) @ setUint32 dm @ body @ junk"])
       (simp_all add: parts m)
  have b: "getUint32 buffer 4 = Inr (length vs)"
    by (rule getUint32_at [where pre = magic and post = "setUint32 dm @ body @ junk"])
       (simp_all add: parts m small)
  have c: "getUint32 buffer 8 = Inr dm"
    by (rule getUint32_at [where pre = "magic @ setUint32 (length vs)" and post = "body @ junk"])
       (simp_all add: parts m small)
  have "readVectors E ((magic @ setUint32 (length vs) @ setUint32 dm) @ body @ junk)
          (length (magic @ setUint32 (length vs) @ setUint32 dm)) (length vs) dm acc = Inr (acc @ vs)"
    unfolding body_def using recs by (rule readVectors_records)
  then have d: "readVectors E buffer 12 (length vs) dm acc = Inr (acc @ vs)"
    by (simp add: parts m)
  have "parseVectors E buffer acc = Inr (acc @ vs)"
    using a b c d by (simp add: parseVectors_def)
  then show ?thesis by (simp add: buffer_def)
qed

lemma sample_decode_encode: "decode sample_env (encode sample_env s) = s"
proof -
  have "char_of (unat (of_nat (of_char c :: nat) :: byte)) = c" for c
    by (simp add: unat_of_nat)
  then show ?thesis
    by (simp add: sample_env_def comp_def map_idI)
qed

lemma consistent_two_records: "consistent sample_env two_records"
  using sample_decode_encode
  by (simp add: consistent_def storable_def two_records_def)
     (simp add: sample_env_def setUint32_def getUint32_def)


text \<open>
  C1 (as the code has it). For a store that is not empty, whose records are storable
  and whose embeddings all have the length of the first one, saving in the binary
  format succeeds, writes the buffer of the store, and loading then gives the same
  records in the same order. Saving an empty store in the binary format writes
  nothing and leaves the files as they are; loading after it gives the empty store
  when neither file of the vector store exists.
\<close>

theorem binary_round_trip:
  "(consistent E (vectors st) \<and> format st = Binary_format \<and> writable st \<longrightarrow>
      fst (saveVectors E st) = Inr ()
      \<and> binFile (snd (saveVectors E st)) = Some (bufferOf E (vectors st))
      \<and> vectors (loadVectors E (snd (saveVectors E st))) = vectors st)
   \<and> (vectors st = [] \<and> format st = Binary_format \<longrightarrow>
      saveVectors E st = (Inr (), st))
   \<and> (vectors st = [] \<and> format st = Binary_format \<and> binFile st = None \<and> jsonFile st = None \<longrightarrow>
      vectors (loadVectors E (snd (saveVectors E st))) = [])"
proof (intro conjI impI; (elim conjE)?)
  assume c: "consistent E (vectors st)" and f: "format st = Binary_format" and w: "writable st"
  from c have ne: "vectors st \<noteq> []" by (simp add: consistent_def)
  define st' where "st' = snd (saveVectors E st)"
  have saved: "fst (saveVectors E st) = Inr ()" "binFile st' = Some (bufferOf E (vectors st))"
    "format st' = Binary_format"
    using ne f w
    by (simp_all add: st'_def saveVectors_def saveVectorsBinary_def console_log_def Let_def)
  have "vectors (loadVectors E st') = vectors st"
    using saved parseVectors_bufferOf [OF c, of "[]"]
    by (simp add: loadVectors_def loadVectorsBinary_def console_log_def Let_def)
  with saved show "fst (saveVectors E st) = Inr ()"
    "binFile (snd (saveVectors E st)) = Some (bufferOf E (vectors st))"
    "vectors (loadVectors E (snd (saveVectors E st))) = vectors st"
    by (simp_all add: st'_def)
next
  assume "vectors st = []" "format st = Binary_format"
  then show "saveVectors E st = (Inr (), st)"
    by (simp add: saveVectors_def saveVectorsBinary_def)
next
  assume "vectors st = []" "format st = Binary_format" "binFile st = None" "jsonFile st = None"
  then show "vectors (loadVectors E (snd (saveVectors E st))) = []"
    by (simp add: saveVectors_def saveVectorsBinary_def loadVectors_def)
qed

theorem binary_round_trip_witness:
  "consistent sample_env (vectors holding_two)
   \<and> vectors (loadVectors sample_env (snd (saveVectors sample_env holding_two))) = two_records
   \<and> saveVectors sample_env fresh = (Inr (), fresh)
   \<and> vectors (loadVectors sample_env (snd (saveVectors sample_env fresh))) = []"
proof -
  have h: "consistent sample_env (vectors holding_two) \<and> format holding_two = Binary_format
      \<and> writable holding_two"
    by (simp add: holding_two_def fresh_def consistent_two_records)
  have e: "vectors fresh = [] \<and> format fresh = Binary_format \<and> binFile fresh = None
      \<and> jsonFile fresh = None"
    by (simp add: fresh_def)
  have two: "vectors holding_two = two_records"
    by (simp add: holding_two_def)
  from binary_round_trip [of sample_env holding_two] h two
  have a: "vectors (loadVectors sample_env (snd (saveVectors sample_env holding_two))) = two_records"
    by simp
  from binary_round_trip [of sample_env fresh] e
  have b: "saveVectors sample_env fresh = (Inr (), fresh)"
    and c: "vectors (loadVectors sample_env (snd (saveVectors sample_env fresh))) = []"
    by blast+
  from h a b c show ?thesis by blast
qed

text \<open>
  C1 as stated fails for the empty store: when a file is there from an earlier save,
  saving the empty store leaves it, and loading brings its records back.
\<close>

theorem empty_store_round_trip_counterexample:
  "vectors stale = []
   \<and> vectors (loadVectors sample_env (snd (saveVectors sample_env stale))) = two_records"
proof -
  have "saveVectors sample_env stale = (Inr (), stale)"
    by (simp add: saveVectors_def saveVectorsBinary_def stale_def fresh_def)
  moreover have "vectors (loadVectors sample_env stale) = two_records"
    using parseVectors_bufferOf [OF consistent_two_records, of "[]"]
    by (simp add: loadVectors_def loadVectorsBinary_def console_log_def stale_def fresh_def Let_def)
  ultimately show ?thesis
    by (simp add: stale_def fresh_def)
qed

section \<open>Loading a file that is not a vector file\<close>

lemma parseVectors_truncated:
  assumes "consistent E vs" and n: "n < length (bufferOf E vs)"
  shows "parseVectors E (take n (bufferOf E vs)) acc = Inl Range_error"
proof -
  define dm where "dm = length (embedding (hd vs))"
  define body where "body = concat (map (vectorBytes E dm) vs)"
  define c4 where "c4 = setUint32 (length vs)"
  define d4 where "d4 = setUint32 dm"
  define buffer where "buffer = take n (bufferOf E vs)"
  have whole: "bufferOf E vs = magic @ c4 @ d4 @ body"
    by (simp add: bufferOf_def Let_def dm_def body_def c4_def d4_def)
  have small: "length vs < 4294967296" "dm < 4294967296"
    and recs: "\<forall>v\<in>set vs. storable E v \<and> length (embedding v) = dm"
    using assms(1) unfolding consistent_def dm_def by blast+
  have m: "length magic = 4" "length c4 = 4" "length d4 = 4"
    by (simp_all add: magic_def c4_def d4_def)
  have size: "length buffer = n"
    using n by (simp add: buffer_def)
  consider (a) "n < 4" | (b) "4 \<le> n" "n < 8" | (c) "8 \<le> n" "n < 12" | (d) "12 \<le> n"
    by linarith
  then have "parseVectors E buffer acc = Inl Range_error"
  proof cases
    case a
    then show ?thesis by (simp add: parseVectors_def bytesAt_def size)
  next
    case b
    have "bytesAt buffer 0 4 = Inr magic"
      by (rule bytesAt_at [where pre = "[]" and post = "take (n - 4) (c4 @ d4 @ body)"])
         (use b in \<open>simp_all add: buffer_def whole m\<close>)
    moreover have "getUint32 buffer 4 = Inl Range_error"
      using b by (simp add: getUint32_def size)
    ultimately show ?thesis by (simp add: parseVectors_def)
  next
    case c
    have "bytesAt buffer 0 4 = Inr magic"
      by (rule bytesAt_at [where pre = "[]" and post = "c4 @ take (n - 8) (d4 @ body)"])
         (use c in \<open>simp_all add: buffer_def whole m\<close>)
    moreover have "getUint32 buffer 4 = Inr (length vs)"
      unfolding c4_def [symmetric]
      by (rule getUint32_at [where pre = magic and post = "take (n - 8) (d4 @ body)"])
         (use c in \<open>simp_all add: buffer_def whole m small c4_def\<close>)
    moreover have "getUint32 buffer 8 = Inl Range_error"
      using c by (simp add: getUint32_def size)
    ultimately show ?thesis by (simp add: parseVectors_def)
  next
    case d
    have cut: "buffer = magic @ c4 @ d4 @ take (n - 12) body"
      using d by (simp add: buffer_def whole m)
    have rest: "n - 12 < length body"
      using n d by (simp add: whole m)
    have "bytesAt buffer 0 4 = Inr magic"
      by (rule bytesAt_at [where pre = "[]" and post = "c4 @ d4 @ take (n - 12) body"])
         (simp_all add: cut m)
    moreover have "getUint32 buffer 4 = Inr (length vs)"
      by (rule getUint32_at [where pre = magic and post = "d4 @ take (n - 12) body"])
         (simp_all add: cut m small c4_def)
    moreover have "getUint32 buffer 8 = Inr dm"
      by (rule getUint32_at [where pre = "magic @ c4" and post = "take (n - 12) body"])
         (simp_all add: cut m small d4_def)
    moreover have "readVectors E ((magic @ c4 @ d4) @ take (n - 12) (concat (map (vectorBytes E dm) vs)))
        (length (magic @ c4 @ d4)) (length vs) dm acc = Inl Range_error"
      using recs rest unfolding body_def by (rule readVectors_truncated)
    then have "readVectors E buffer 12 (length vs) dm acc = Inl Range_error"
      by (simp add: cut m body_def)
    ultimately show ?thesis by (simp add: parseVectors_def)
  qed
  then show ?thesis by (simp add: buffer_def)
qed

lemma parseVectors_wrong_magic:
  assumes "take 4 buffer \<noteq> magic"
  shows "parseVectors E buffer acc =
           Inl (if length buffer < 4 then Range_error else Invalid_format)"
  using assms by (simp add: parseVectors_def bytesAt_def)

text \<open>
  C9 (as the code has it). \<open>loadVectorsBinary\<close> returns a service state for every
  state it is given: nothing leaves it as an exception. When the first four bytes of
  the file are not the magic (the file may also be shorter than four bytes), and
  whenever reading the buffer fails in any way, the store is empty afterwards and one
  error line has been written to the console. A buffer cut off anywhere (a strict
  prefix of the buffer saved for a consistent store) is such a failure, and so is a
  file that cannot be read. The same holds through \<open>loadVectors\<close> in the binary
  format. A buffer that is malformed in a way the reads do not meet is loaded: when
  the buffer saved for a consistent store is followed by any further bytes, its records
  are loaded and the console gets the line of a successful load, not an error.
\<close>

theorem unreadable_file_gives_empty_store:
  "(binFile st = Some buffer \<and> take 4 buffer \<noteq> magic \<longrightarrow>
      loadVectorsBinary E st =
        console_log (Error_failed_load_binary
                       (if length buffer < 4 then Range_error else Invalid_format))
          (st\<lparr>vectors := []\<rparr>))
   \<and> (binFile st = Some buffer \<and> parseVectors E buffer (vectors st) = Inl err \<longrightarrow>
      loadVectorsBinary E st = console_log (Error_failed_load_binary err) (st\<lparr>vectors := []\<rparr>))
   \<and> (consistent E vs \<and> n < length (bufferOf E vs)
        \<and> binFile st = Some (take n (bufferOf E vs)) \<longrightarrow>
      loadVectorsBinary E st =
        console_log (Error_failed_load_binary Range_error) (st\<lparr>vectors := []\<rparr>))
   \<and> (binFile st = None \<longrightarrow>
      loadVectorsBinary E st =
        console_log (Error_failed_load_binary Read_failed) (st\<lparr>vectors := []\<rparr>))
   \<and> (format st = Binary_format \<and> binFile st = Some buffer \<and> take 4 buffer \<noteq> magic \<longrightarrow>
      vectors (loadVectors E st) = []
      \<and> console (loadVectors E st) =
          console st @ [Error_failed_load_binary
                          (if length buffer < 4 then Range_error else Invalid_format)])
   \<and> (consistent E vs \<and> binFile st = Some (bufferOf E vs @ junk) \<longrightarrow>
      loadVectorsBinary E st =
        console_log (Log_loaded_binary (length (vectors st @ vs)))
          (st\<lparr>vectors := vectors st @ vs\<rparr>))"
proof (intro conjI impI; (elim conjE)?)
  assume "consistent E vs" "binFile st = Some (bufferOf E vs @ junk)"
  then show "loadVectorsBinary E st =
        console_log (Log_loaded_binary (length (vectors st @ vs)))
          (st\<lparr>vectors := vectors st @ vs\<rparr>)"
    using parseVectors_bufferOf_trailing [of E vs junk "vectors st"]
    by (simp add: loadVectorsBinary_def)
next
  assume "binFile st = Some buffer" "take 4 buffer \<noteq> magic"
  then show "loadVectorsBinary E st =
        console_log (Error_failed_load_binary
                       (if length buffer < 4 then Range_error else Invalid_format))
          (st\<lparr>vectors := []\<rparr>)"
    using parseVectors_wrong_magic [of buffer E "vectors st"]
    by (simp add: loadVectorsBinary_def)
next
  assume "binFile st = Some buffer" "parseVectors E buffer (vectors st) = Inl err"
  then show "loadVectorsBinary E st = console_log (Error_failed_load_binary err) (st\<lparr>vectors := []\<rparr>)"
    by (simp add: loadVectorsBinary_def)
next
  assume "consistent E vs" "n < length (bufferOf E vs)" "binFile st = Some (take n (bufferOf E vs))"
  then show "loadVectorsBinary E st =
        console_log (Error_failed_load_binary Range_error) (st\<lparr>vectors := []\<rparr>)"
    using parseVectors_truncated [of E vs n "vectors st"]
    by (simp add: loadVectorsBinary_def)
next
  assume "binFile st = None"
  then show "loadVectorsBinary E st =
        console_log (Error_failed_load_binary Read_failed) (st\<lparr>vectors := []\<rparr>)"
    by (simp add: loadVectorsBinary_def)
next
  assume a: "format st = Binary_format" "binFile st = Some buffer" "take 4 buffer \<noteq> magic"
  then have "loadVectors E st = console_log (Error_failed_load_binary
                       (if length buffer < 4 then Range_error else Invalid_format))
          (st\<lparr>vectors := []\<rparr>)"
    using parseVectors_wrong_magic [of buffer E "[]"]
    by (simp add: loadVectors_def loadVectorsBinary_def Let_def)
  then show "vectors (loadVectors E st) = []"
    "console (loadVectors E st) =
          console st @ [Error_failed_load_binary
                          (if length buffer < 4 then Range_error else Invalid_format)]"
    by (simp_all add: console_log_def)
qed

lemma length_sample_buffer: "30 < length (bufferOf sample_env two_records)"
  by (simp add: bufferOf_def two_records_def vectorBytes_def sample_env_def embeddingBytes_def
      magic_def Let_def)

theorem unreadable_file_gives_empty_store_witness:
  "vectors (loadVectorsBinary sample_env wrong_magic) = []
   \<and> console (loadVectorsBinary sample_env wrong_magic) = [Error_failed_load_binary Invalid_format]
   \<and> vectors (loadVectors sample_env wrong_magic) = []
   \<and> console (loadVectors sample_env wrong_magic) = [Error_failed_load_binary Invalid_format]
   \<and> vectors (loadVectorsBinary sample_env cut_short) = []
   \<and> console (loadVectorsBinary sample_env cut_short) = [Error_failed_load_binary Range_error]
   \<and> vectors (loadVectorsBinary sample_env holding_two) = []
   \<and> console (loadVectorsBinary sample_env holding_two) = [Error_failed_load_binary Read_failed]
   \<and> vectors (loadVectorsBinary sample_env trailing_byte) = two_records
   \<and> console (loadVectorsBinary sample_env trailing_byte) = [Log_loaded_binary 2]"
proof -
  have more: "binFile trailing_byte = Some (bufferOf sample_env two_records @ [0xFF])"
    "vectors trailing_byte = []" "console trailing_byte = []"
    by (simp_all add: trailing_byte_def fresh_def)
  have e: "loadVectorsBinary sample_env trailing_byte =
      console_log (Log_loaded_binary (length (vectors trailing_byte @ two_records)))
        (trailing_byte\<lparr>vectors := vectors trailing_byte @ two_records\<rparr>)"
    using unreadable_file_gives_empty_store [where E = sample_env and st = trailing_byte
        and vs = two_records and junk = "[0xFF]"]
      consistent_two_records more(1) by blast
  have loaded: "vectors (loadVectorsBinary sample_env trailing_byte) = two_records"
    "console (loadVectorsBinary sample_env trailing_byte) = [Log_loaded_binary 2]"
    unfolding e by (simp_all add: console_log_def more two_records_def)
  have bad: "binFile wrong_magic = Some [0x4A, 0x53, 0x4F, 0x4E, 0x7B]"
    "take 4 [0x4A, 0x53, 0x4F, 0x4E, 0x7B :: byte] \<noteq> magic"
    "format wrong_magic = Binary_format" "console wrong_magic = []"
    by (simp_all add: wrong_magic_def fresh_def magic_def)
  have short: "binFile cut_short = Some (take 30 (bufferOf sample_env two_records))"
    by (simp add: cut_short_def)
  have none: "binFile holding_two = None"
    by (simp add: holding_two_def fresh_def)
  have a: "loadVectorsBinary sample_env wrong_magic =
      console_log (Error_failed_load_binary Invalid_format) (wrong_magic\<lparr>vectors := []\<rparr>)"
    and b: "vectors (loadVectors sample_env wrong_magic) = []
      \<and> console (loadVectors sample_env wrong_magic) = [Error_failed_load_binary Invalid_format]"
    using unreadable_file_gives_empty_store [of wrong_magic "[0x4A, 0x53, 0x4F, 0x4E, 0x7B]" sample_env]
      bad by simp_all
  have c: "loadVectorsBinary sample_env cut_short =
      console_log (Error_failed_load_binary Range_error) (cut_short\<lparr>vectors := []\<rparr>)"
    using unreadable_file_gives_empty_store [of cut_short _ sample_env _ two_records 30]
      consistent_two_records length_sample_buffer short by blast
  have d: "loadVectorsBinary sample_env holding_two =
      console_log (Error_failed_load_binary Read_failed) (holding_two\<lparr>vectors := []\<rparr>)"
    using unreadable_file_gives_empty_store [of holding_two _ sample_env] none by blast
  have failed: "vectors (loadVectorsBinary sample_env wrong_magic) = []
   \<and> console (loadVectorsBinary sample_env wrong_magic) = [Error_failed_load_binary Invalid_format]
   \<and> vectors (loadVectors sample_env wrong_magic) = []
   \<and> console (loadVectors sample_env wrong_magic) = [Error_failed_load_binary Invalid_format]
   \<and> vectors (loadVectorsBinary sample_env cut_short) = []
   \<and> console (loadVectorsBinary sample_env cut_short) = [Error_failed_load_binary Range_error]
   \<and> vectors (loadVectorsBinary sample_env holding_two) = []
   \<and> console (loadVectorsBinary sample_env holding_two) = [Error_failed_load_binary Read_failed]"
    unfolding a c d using b
    by (simp add: console_log_def wrong_magic_def cut_short_def holding_two_def fresh_def)
  with loaded show ?thesis by blast
qed

text \<open>
  C9 as stated fails for a malformed buffer that the reads do not meet: a saved
  buffer with one more byte at its end is no vector file as the format has it, and
  loading it gives the two records and the console line of a successful load.
\<close>

theorem trailing_byte_is_loaded_counterexample:
  "vectors (loadVectorsBinary sample_env trailing_byte) = two_records
   \<and> console (loadVectorsBinary sample_env trailing_byte) = [Log_loaded_binary 2]
   \<and> vectors (loadVectors sample_env trailing_byte) = two_records"
proof -
  have parsed: "parseVectors sample_env (bufferOf sample_env two_records @ [0xFF]) []
      = Inr two_records"
    using parseVectors_bufferOf_trailing [OF consistent_two_records, of "[0xFF]" "[]"] by simp
  have two: "length two_records = 2"
    by (simp add: two_records_def)
  have "loadVectorsBinary sample_env trailing_byte =
      console_log (Log_loaded_binary 2) (trailing_byte\<lparr>vectors := two_records\<rparr>)"
    using parsed two by (simp add: loadVectorsBinary_def trailing_byte_def fresh_def)
  moreover have "loadVectors sample_env trailing_byte =
      console_log (Log_loaded_binary 2) (trailing_byte\<lparr>vectors := two_records\<rparr>)"
    using parsed two
    by (simp add: loadVectors_def loadVectorsBinary_def trailing_byte_def fresh_def Let_def)
  ultimately show ?thesis
    by (simp add: console_log_def trailing_byte_def fresh_def)
qed

section \<open>Cancelling the indexing of the corpus\<close>

lemmas run_defs = indexAll_def loadVectors_def indexAll_step_def indexNote_def
  generateEmbedding_steady storeVector_def saveVectors_def saveVectorsBinary_def
  indexAll_catch_def indexAll_finish_def prune_def console_log_def indexFailed_def
  fresh_def note_a_def note_b_def note_c_def sample_env_def aborted_from_third_def
  never_aborted_def Let_def

lemma saveVectors_result:
  "fst (saveVectors E st) = Inr () \<or> fst (saveVectors E st) = Inl Write_failed"
  by (simp add: saveVectors_def saveVectorsBinary_def saveVectorsJson_def Let_def)

lemma indexAll_catch_result:
  "fst (indexAll_catch E err lv st) = Inr () \<or> fst (indexAll_catch E err lv st) = Inl Write_failed"
  using saveVectors_result [of E] by (auto simp: indexAll_catch_def Let_def)

lemma indexAll_result:
  "fst (indexAll E prov signal files st) = Inr ()
   \<or> fst (indexAll E prov signal files st) = Inl Write_failed"
proof (cases "isIndexing st")
  case True
  then show ?thesis by (simp add: indexAll_def)
next
  case False
  define st1 where "st1 = (loadVectors E (st\<lparr>isIndexing := True, abortController := True\<rparr>))
      \<lparr>totalFiles := length files\<rparr>"
  define lv0 where "lv0 = \<lparr>processedCount = 0, successCount = 0, errorCount = 0, failedFiles = [],
                    changed = False\<rparr>"
  obtain thrown lv st2 where loop: "indexAll_loop E prov signal (length files) files lv0 st1
      = (thrown, lv, st2)"
    using prod_cases3 by blast
  obtain failed st3 where finish: "indexAll_finish E files lv st2 = (failed, st3)"
    by fastforce
  have "fst (indexAll E prov signal files st) =
      (case thrown of
         Some err \<Rightarrow> fst (indexAll_catch E err lv st2)
       | None \<Rightarrow> (case failed of Some err \<Rightarrow> fst (indexAll_catch E err lv st3) | None \<Rightarrow> Inr ()))"
    using False loop finish
    by (simp add: indexAll_def Let_def st1_def lv0_def split: option.splits prod.splits)
  then show ?thesis
    using indexAll_catch_result by (auto split: option.splits)
qed

text \<open>
  C3. The run of \<open>indexAll\<close> over three notes that is cancelled after two of them
  have been indexed stops at the check for the third note, and the store with the two
  records is written to disk. But the run returns normally, as the run over the first
  two notes that is not cancelled does, with the same store, the same file and the same
  console; only the progress counters differ. No run of \<open>indexAll\<close> reports a
  cancellation: it returns normally, or fails because the store cannot be written.
\<close>

theorem cancelled_run_returns_like_a_completed_one:
  "indexAll sample_env steady_provider aborted_from_third [note_a, note_b, note_c] fresh =
     (Inr (),
      fresh\<lparr>vectors := first_two,
            currentProgress := 3, totalFiles := 3,
            binFile := Some (bufferOf sample_env first_two),
            network := [Request ''alpha'', Request ''beta''],
            console := [Log_indexing ''a.md'', Log_indexing ''b.md'',
                        Log_saved_binary 2 (length (bufferOf sample_env first_two))],
            progress := [(1, 3), (2, 3), (3, 3)]\<rparr>)
   \<and> indexAll sample_env steady_provider never_aborted [note_a, note_b] fresh =
     (Inr (),
      fresh\<lparr>vectors := first_two,
            currentProgress := 2, totalFiles := 2,
            binFile := Some (bufferOf sample_env first_two),
            network := [Request ''alpha'', Request ''beta''],
            console := [Log_indexing ''a.md'', Log_indexing ''b.md'',
                        Log_saved_binary 2 (length (bufferOf sample_env first_two))],
            progress := [(1, 2), (2, 2)]\<rparr>)
   \<and> (fst (indexAll E prov signal files st) = Inr ()
      \<or> fst (indexAll E prov signal files st) = Inl Write_failed)"
proof -
  have cancelled:
    "indexAll sample_env steady_provider aborted_from_third [note_a, note_b, note_c] fresh =
     (Inr (),
      fresh\<lparr>vectors := first_two,
            currentProgress := 3, totalFiles := 3,
            binFile := Some (bufferOf sample_env first_two),
            network := [Request ''alpha'', Request ''beta''],
            console := [Log_indexing ''a.md'', Log_indexing ''b.md'',
                        Log_saved_binary 2 (length (bufferOf sample_env first_two))],
            progress := [(1, 3), (2, 3), (3, 3)]\<rparr>)"
    by (simp add: run_defs first_two_def truncatedText_def sanitizeText_def is_control_def)
  have completed:
    "indexAll sample_env steady_provider never_aborted [note_a, note_b] fresh =
     (Inr (),
      fresh\<lparr>vectors := first_two,
            currentProgress := 2, totalFiles := 2,
            binFile := Some (bufferOf sample_env first_two),
            network := [Request ''alpha'', Request ''beta''],
            console := [Log_indexing ''a.md'', Log_indexing ''b.md'',
                        Log_saved_binary 2 (length (bufferOf sample_env first_two))],
            progress := [(1, 2), (2, 2)]\<rparr>)"
    by (simp add: run_defs first_two_def truncatedText_def sanitizeText_def is_control_def)
  from cancelled completed indexAll_result [of E prov signal files st]
  show ?thesis by blast
qed

end
